theory Spec2Isabelle
  imports Main "HOL-Library.AList"
begin

section \<open>JavaScript values that cross the socket\<close>

text \<open>
  The tool in \<^verbatim>\<open>api/app/clients/tools/structured/DavinciProjectFiles.js\<close> exchanges
  JSON text frames with a remote peer. A value produced by \<^verbatim>\<open>JSON.parse\<close> is null, a
  boolean, a number, a string, an array or an object. A number is held as the decimal text
  that \<^verbatim>\<open>Number.prototype.toString\<close> gives for it (\<^verbatim>\<open>0\<close> and \<^verbatim>\<open>-0\<close> both print as
  \<^verbatim>\<open>0\<close>; the values that are not finite print as \<^verbatim>\<open>Infinity\<close>, \<^verbatim>\<open>-Infinity\<close> and
  \<^verbatim>\<open>NaN\<close>), so printing a number and testing it against zero need no floating point. A
  string is a list of code units below 256. An object is the list of its members in the
  order in which they were defined, which for a parsed object is the order of the text: a
  later member of the same name replaces the value of the earlier one and keeps its place.
\<close>

datatype json =
    JNull
  | JBool bool
  | JNum string
  | JStr string
  | JArr "json list"
  | JObj "(string \<times> json) list"

type_synonym obj = "(string \<times> json) list"

text \<open>\<^verbatim>\<open>undefined\<close> is not a JSON value: a JavaScript value that may be undefined is a
  \<open>json option\<close>, with \<open>None\<close> for \<^verbatim>\<open>undefined\<close>.\<close>

type_synonym jsval = "json option"

subsection \<open>Truthiness and conversion to string\<close>

text \<open>ToBoolean: \<^verbatim>\<open>null\<close>, \<^verbatim>\<open>false\<close>, zero, \<^verbatim>\<open>NaN\<close> and the empty string are falsy,
  every array and object is truthy.\<close>

fun truthy :: "json \<Rightarrow> bool" where
  "truthy JNull = False"
| "truthy (JBool b) = b"
| "truthy (JNum n) = (n \<noteq> ''0'' \<and> n \<noteq> ''NaN'')"
| "truthy (JStr s) = (s \<noteq> [])"
| "truthy (JArr xs) = True"
| "truthy (JObj kvs) = True"

fun join :: "string \<Rightarrow> string list \<Rightarrow> string" where
  "join sep [] = []"
| "join sep [x] = x"
| "join sep (x # y # ys) = x @ sep @ join sep (y # ys)"

text \<open>
  ToString, which \<^verbatim>\<open>new Error(v)\<close> applies to its argument; \<open>None\<close> when it throws a
  TypeError. An object of parsed JSON has no callable property of its own. When it has a
  member named \<^verbatim>\<open>toString\<close>, that member hides \<^verbatim>\<open>Object.prototype.toString\<close>, and
  \<^verbatim>\<open>valueOf\<close>, its own or the inherited one, yields no primitive value: the conversion
  throws. Any other object prints as \<^verbatim>\<open>[object Object]\<close>. An array prints its elements
  joined by commas, a null element as the empty string, and throws when the conversion of
  an element does.
\<close>

fun js_to_string :: "json \<Rightarrow> string option"
  and js_elems_to_strings :: "json list \<Rightarrow> string list option" where
  "js_to_string JNull = Some ''null''"
| "js_to_string (JBool b) = Some (if b then ''true'' else ''false'')"
| "js_to_string (JNum n) = Some n"
| "js_to_string (JStr s) = Some s"
| "js_to_string (JArr xs) =
     (case js_elems_to_strings xs of None \<Rightarrow> None | Some strs \<Rightarrow> Some (join '','' strs))"
| "js_to_string (JObj kvs) =
     (if ''toString'' \<in> fst ` set kvs then None else Some ''[object Object]'')"
| "js_elems_to_strings [] = Some []"
| "js_elems_to_strings (x # xs) =
     (case (if x = JNull then Some [] else js_to_string x) of
        None \<Rightarrow> None
      | Some str \<Rightarrow>
          (case js_elems_to_strings xs of None \<Rightarrow> None | Some strs \<Rightarrow> Some (str # strs)))"

subsection \<open>Objects: property order, assignment and spread\<close>

definition is_digit :: "char \<Rightarrow> bool" where
  "is_digit c = (48 \<le> (of_char c :: nat) \<and> (of_char c :: nat) \<le> 57)"

definition dec :: "string \<Rightarrow> nat" where
  "dec s = foldl (\<lambda>n c. 10 * n + ((of_char c :: nat) - 48)) 0 s"

text \<open>An array index is the canonical decimal text of an integer below \<open>2^32 - 1\<close>. An
  object enumerates its array-index keys first, in ascending numeric order, and then its
  other string keys in the order of their creation. The functions below work on the list
  of the properties of an object in that order of enumeration, each name once.\<close>

definition is_array_index :: "string \<Rightarrow> bool" where
  "is_array_index s =
     (s \<noteq> [] \<and> list_all is_digit s \<and> (s = ''0'' \<or> hd s \<noteq> CHR ''0'') \<and> length s \<le> 10
      \<and> dec s < 4294967295)"

fun obj_insert :: "string \<Rightarrow> json \<Rightarrow> obj \<Rightarrow> obj" where
  "obj_insert k v [] = [(k, v)]"
| "obj_insert k v ((k', v') # rest) =
     (if is_array_index k \<and> (\<not> is_array_index k' \<or> dec k < dec k')
      then (k, v) # (k', v') # rest
      else (k', v') # obj_insert k v rest)"

text \<open>Defining a property: an existing key keeps its place and takes the new value, a new
  key is created at its place in the enumeration order.\<close>

definition obj_set :: "string \<Rightarrow> json \<Rightarrow> obj \<Rightarrow> obj" where
  "obj_set k v ob =
     (if k \<in> fst ` set ob then AList.update k v ob else obj_insert k v ob)"

text \<open>An object literal \<^verbatim>\<open>{ k1: v1, ..., ...src }\<close> defines its properties from left to
  right on a fresh object; a spread defines each own property of its source in turn, so a
  later property overrides an earlier one of the same name.\<close>

definition obj_spread :: "obj \<Rightarrow> obj \<Rightarrow> obj" where
  "obj_spread target src = foldl (\<lambda>ob (k, v). obj_set k v ob) target src"

definition object_literal :: "obj \<Rightarrow> obj" where
  "object_literal props = obj_spread [] props"

subsection \<open>\<^verbatim>\<open>JSON.stringify\<close>\<close>

definition dquote :: char where
  "dquote = CHR 0x22"

definition backslash :: char where
  "backslash = CHR 0x5C"

definition hex_digit :: "nat \<Rightarrow> char" where
  "hex_digit n = ''0123456789abcdef'' ! (n mod 16)"

text \<open>QuoteJSONString: the quote, the backslash and the control characters are escaped,
  every other code unit below 256 is copied.\<close>

definition escape_char :: "char \<Rightarrow> string" where
  "escape_char c =
     (let n = (of_char c :: nat) in
      if n = 8 then [backslash, CHR ''b'']
      else if n = 9 then [backslash, CHR ''t'']
      else if n = 10 then [backslash, CHR ''n'']
      else if n = 12 then [backslash, CHR ''f'']
      else if n = 13 then [backslash, CHR ''r'']
      else if c = dquote then [backslash, dquote]
      else if c = backslash then [backslash, backslash]
      else if n < 32 then [backslash, CHR ''u'', CHR ''0'', CHR ''0'', hex_digit (n div 16), hex_digit n]
      else [c])"

definition quote_json :: "string \<Rightarrow> string" where
  "quote_json s = dquote # concat (map escape_char s) @ [dquote]"

text \<open>The value with the members of every object in the order of enumeration, each name
  once with its last value: what \<^verbatim>\<open>JSON.stringify\<close> walks through.\<close>

fun canonical :: "json \<Rightarrow> json"
  and canonical_elems :: "json list \<Rightarrow> json list"
  and canonical_members :: "obj \<Rightarrow> obj" where
  "canonical JNull = JNull"
| "canonical (JBool b) = JBool b"
| "canonical (JNum n) = JNum n"
| "canonical (JStr s) = JStr s"
| "canonical (JArr xs) = JArr (canonical_elems xs)"
| "canonical (JObj kvs) = JObj (object_literal (canonical_members kvs))"
| "canonical_elems [] = []"
| "canonical_elems (x # xs) = canonical x # canonical_elems xs"
| "canonical_members [] = []"
| "canonical_members ((k, v) # kvs) = (k, canonical v) # canonical_members kvs"

text \<open>A number that is not finite is serialized as \<^verbatim>\<open>null\<close>.\<close>

definition finite_number :: "string \<Rightarrow> bool" where
  "finite_number n = (n \<noteq> ''Infinity'' \<and> n \<noteq> ''-Infinity'' \<and> n \<noteq> ''NaN'')"

fun print_json :: "json \<Rightarrow> string"
  and print_elems :: "json list \<Rightarrow> string list"
  and print_members :: "obj \<Rightarrow> string list" where
  "print_json JNull = ''null''"
| "print_json (JBool b) = (if b then ''true'' else ''false'')"
| "print_json (JNum n) = (if finite_number n then n else ''null'')"
| "print_json (JStr s) = quote_json s"
| "print_json (JArr xs) = ''['' @ join '','' (print_elems xs) @ '']''"
| "print_json (JObj kvs) = ''{'' @ join '','' (print_members kvs) @ ''}''"
| "print_elems [] = []"
| "print_elems (x # xs) = print_json x # print_elems xs"
| "print_members [] = []"
| "print_members ((k, v) # kvs) = (quote_json k @ '':'' @ print_json v) # print_members kvs"

text \<open>\<^verbatim>\<open>JSON.stringify(v)\<close> without indentation, for a value \<open>v\<close> that is not
  \<^verbatim>\<open>undefined\<close>. No member of parsed JSON is callable, so a member named \<^verbatim>\<open>toJSON\<close> is
  printed as any other.\<close>

definition stringify :: "json \<Rightarrow> string" where
  "stringify j = print_json (canonical j)"

text \<open>\<^verbatim>\<open>JSON.stringify(undefined)\<close> is \<^verbatim>\<open>undefined\<close>, not a string.\<close>

definition json_stringify :: "jsval \<Rightarrow> string option" where
  "json_stringify v = (case v of None \<Rightarrow> None | Some j \<Rightarrow> Some (stringify j))"

section \<open>The tool: one socket, a table of pending requests\<close>

text \<open>
  \<^verbatim>\<open>class DavinciProjectFiles\<close> owns one socket handle \<^verbatim>\<open>this.ws\<close> and the map
  \<^verbatim>\<open>this.pending_requests\<close> from request id to the \<^verbatim>\<open>{ resolve, reject }\<close> pair of
  the promise that awaits the reply. JavaScript runs one handler at a time, so the tool is
  a state and every method and event listener a function on it.

  \<^item> Every socket the tool has created is an index into \<open>socks\<close>, which holds its
    \<^verbatim>\<open>readyState\<close>; \<open>sent\<close> lists the frames handed to \<^verbatim>\<open>send\<close>, with their socket.
  \<^item> A promise is a number; \<open>promises\<close> counts the promises created so far. \<open>settled\<close>
    lists every call of a \<^verbatim>\<open>resolve\<close> or \<^verbatim>\<open>reject\<close> function, in order, with the
    promise it belongs to. A promise keeps the outcome of the first call made on it.
  \<^item> \<open>timeouts\<close> lists the request ids whose 30 second timer is armed, \<open>reconnects\<close>
    counts the armed 5 second reconnection timers. Delays are not modelled: an armed timer
    may fire at any later moment.
  \<^item> \<open>url_ok\<close> says whether \<^verbatim>\<open>new WebSocket(this.wsUrl, ...)\<close> returns a socket; it
    throws on a malformed URL.
  \<^item> \<open>crashed\<close> is set when a listener throws an exception that nothing catches, which
    ends the process.
  Calls of \<^verbatim>\<open>logger\<close> change nothing and are left out.
\<close>

datatype ready_state = CONNECTING | OPEN | CLOSING | CLOSED

datatype error = Error string

datatype outcome = Resolved jsval | Rejected error

record tool =
  url_ok :: bool
  ws :: "nat option"
  socks :: "ready_state list"
  sent :: "(nat \<times> string) list"
  pending_requests :: "(string \<times> nat) list"
  timeouts :: "string list"
  reconnects :: nat
  promises :: nat
  settled :: "(nat \<times> outcome) list"
  crashed :: bool

definition outcome_of :: "nat \<Rightarrow> tool \<Rightarrow> outcome option" where
  "outcome_of p s = map_of (settled s) p"

definition calls_on :: "nat \<Rightarrow> tool \<Rightarrow> outcome list" where
  "calls_on p s = map snd (filter (\<lambda>c. fst c = p) (settled s))"

definition resolve :: "nat \<Rightarrow> jsval \<Rightarrow> tool \<Rightarrow> tool" where
  "resolve p v s = s\<lparr>settled := settled s @ [(p, Resolved v)]\<rparr>"

definition reject :: "nat \<Rightarrow> error \<Rightarrow> tool \<Rightarrow> tool" where
  "reject p e s = s\<lparr>settled := settled s @ [(p, Rejected e)]\<rparr>"

text \<open>\<^verbatim>\<open>new Error(v)\<close>: the message is \<open>ToString(v)\<close>, and empty when \<open>v\<close> is
  \<^verbatim>\<open>undefined\<close>; \<open>None\<close> when the conversion throws, so that no error object is made.\<close>

definition new_Error :: "jsval \<Rightarrow> error option" where
  "new_Error v =
     (case v of
        None \<Rightarrow> Some (Error [])
      | Some j \<Rightarrow> (case js_to_string j of None \<Rightarrow> None | Some msg \<Rightarrow> Some (Error msg)))"

subsection \<open>The socket library\<close>

text \<open>\<^verbatim>\<open>socket.send(frame)\<close> of the \<^verbatim>\<open>ws\<close> package: an open socket transmits the frame,
  a connecting one throws, a closing or closed one drops the frame when no callback is
  given.\<close>

definition ws_send :: "nat \<Rightarrow> string \<Rightarrow> tool \<Rightarrow> tool" where
  "ws_send k frame s =
     (if k < length (socks s) \<and> socks s ! k = OPEN then s\<lparr>sent := sent s @ [(k, frame)]\<rparr>
      else if k < length (socks s) \<and> socks s ! k = CONNECTING then s\<lparr>crashed := True\<rparr>
      else s)"

text \<open>\<^verbatim>\<open>socket.close()\<close> starts the closing handshake unless the socket is closed
  already; the \<^verbatim>\<open>close\<close> event follows later.\<close>

definition ws_close :: "nat \<Rightarrow> tool \<Rightarrow> tool" where
  "ws_close k s =
     (if k < length (socks s) \<and> socks s ! k \<noteq> CLOSED then s\<lparr>socks := (socks s)[k := CLOSING]\<rparr>
      else s)"

subsection \<open>The map of pending requests\<close>

text \<open>The keys of \<^verbatim>\<open>pending_requests\<close> are the strings that \<^verbatim>\<open>sendWebSocketRequest\<close>
  stored. \<^verbatim>\<open>Map.has\<close>, \<^verbatim>\<open>get\<close> and \<^verbatim>\<open>delete\<close> compare keys with SameValueZero, so a
  value that is not a string matches no key.\<close>

definition key_of :: "jsval \<Rightarrow> string option" where
  "key_of v = (case v of Some (JStr k) \<Rightarrow> Some k | _ \<Rightarrow> None)"

definition map_has :: "(string \<times> nat) list \<Rightarrow> jsval \<Rightarrow> bool" where
  "map_has m v = (case key_of v of None \<Rightarrow> False | Some k \<Rightarrow> map_of m k \<noteq> None)"

definition map_get :: "(string \<times> nat) list \<Rightarrow> jsval \<Rightarrow> nat option" where
  "map_get m v = (case key_of v of None \<Rightarrow> None | Some k \<Rightarrow> map_of m k)"

definition map_delete :: "jsval \<Rightarrow> (string \<times> nat) list \<Rightarrow> (string \<times> nat) list" where
  "map_delete v m = (case key_of v of None \<Rightarrow> m | Some k \<Rightarrow> AList.delete k m)"

text \<open>Reading a property of a parsed value: an object yields the value of its last
  member of that name, or \<^verbatim>\<open>undefined\<close>; a boolean, number, string or array has none of
  the properties \<^verbatim>\<open>request_id\<close>, \<^verbatim>\<open>error\<close> and \<^verbatim>\<open>data\<close> that the tool reads. Reading a
  property of \<^verbatim>\<open>null\<close> throws, which the caller handles.\<close>

definition get_prop :: "json \<Rightarrow> string \<Rightarrow> jsval" where
  "get_prop j name = (case j of JObj kvs \<Rightarrow> map_of (rev kvs) name | _ \<Rightarrow> None)"

definition js_truthy :: "jsval \<Rightarrow> bool" where
  "js_truthy v = (case v of None \<Rightarrow> False | Some j \<Rightarrow> truthy j)"

subsection \<open>Connection manager\<close>

definition new_tool :: "bool \<Rightarrow> tool" where
  "new_tool ok =
     \<lparr>url_ok = ok, ws = None, socks = [], sent = [], pending_requests = [], timeouts = [],
      reconnects = 0, promises = 0, settled = [], crashed = False\<rparr>"

text \<open>\<^verbatim>\<open>connectWebSocket()\<close>: nothing while a handle exists; otherwise a new socket in
  state CONNECTING, or, when the constructor throws, no handle and a reconnection timer.\<close>

definition connectWebSocket :: "tool \<Rightarrow> tool" where
  "connectWebSocket s =
     (if ws s \<noteq> None then s
      else if url_ok s then s\<lparr>ws := Some (length (socks s)), socks := socks s @ [CONNECTING]\<rparr>
      else s\<lparr>ws := None, reconnects := reconnects s + 1\<rparr>)"

text \<open>\<^verbatim>\<open>constructor(fields)\<close>: connects unless \<^verbatim>\<open>fields.override\<close> is set.\<close>

definition constructor :: "bool \<Rightarrow> bool \<Rightarrow> tool" where
  "constructor override ok =
     (if \<not> override then connectWebSocket (new_tool ok) else new_tool ok)"

definition connection_verify :: obj where
  "connection_verify =
     object_literal [(''sender_type'', JStr ''plugin''), (''type'', JStr ''connection_verify''),
       (''request_id'', JStr ''initial-connection'')]"

text \<open>The \<^verbatim>\<open>open\<close> listener sends the verification message on \<^verbatim>\<open>this.ws\<close>; reading
  \<^verbatim>\<open>send\<close> of a null handle throws.\<close>

definition on_open :: "tool \<Rightarrow> tool" where
  "on_open s =
     (case ws s of
        None \<Rightarrow> s\<lparr>crashed := True\<rparr>
      | Some k \<Rightarrow> ws_send k (stringify (JObj connection_verify)) s)"

text \<open>The \<^verbatim>\<open>close\<close> listener clears the handle and arms a reconnection timer.\<close>

definition on_close :: "tool \<Rightarrow> tool" where
  "on_close s = s\<lparr>ws := None, reconnects := reconnects s + 1\<rparr>"

text \<open>\<^verbatim>\<open>cleanup()\<close>.\<close>

definition cleanup :: "tool \<Rightarrow> tool" where
  "cleanup s = (case ws s of None \<Rightarrow> s | Some k \<Rightarrow> (ws_close k s)\<lparr>ws := None\<rparr>)"

subsection \<open>Request correlator\<close>

text \<open>The object \<^verbatim>\<open>{ request_id, sender_type: 'plugin', type, ...payload }\<close>.\<close>

definition envelope :: "string \<Rightarrow> string \<Rightarrow> obj \<Rightarrow> obj" where
  "envelope request_id type payload =
     object_literal
       ([(''request_id'', JStr request_id), (''sender_type'', JStr ''plugin''),
         (''type'', JStr type)] @ payload)"

definition connected :: "tool \<Rightarrow> bool" where
  "connected s = (case ws s of None \<Rightarrow> False | Some k \<Rightarrow> k < length (socks s) \<and> socks s ! k = OPEN)"

text \<open>
  \<^verbatim>\<open>sendWebSocketRequest(type, payload)\<close> creates a promise and runs its executor at once.
  The first argument is the string that
  \<^verbatim>\<open>Math.random().toString(36).substring(2, 15)\<close> yields: it is read only when the socket
  is open. The result is the new promise and the state after the executor.
\<close>

definition sendWebSocketRequest :: "string \<Rightarrow> string \<Rightarrow> obj \<Rightarrow> tool \<Rightarrow> nat \<times> tool" where
  "sendWebSocketRequest request_id type payload s =
     (let p = promises s; s0 = s\<lparr>promises := p + 1\<rparr> in
      case ws s0 of
        None \<Rightarrow> (p, reject p (Error ''WebSocket is not connected'') s0)
      | Some k \<Rightarrow>
          if \<not> (k < length (socks s0) \<and> socks s0 ! k = OPEN)
          then (p, reject p (Error ''WebSocket is not connected'') s0)
          else
            let request = envelope request_id type payload;
                s1 = s0\<lparr>pending_requests := AList.update request_id p (pending_requests s0)\<rparr>;
                s2 = s1\<lparr>timeouts := timeouts s1 @ [request_id]\<rparr>
            in (p, ws_send k (stringify (JObj request)) s2))"

text \<open>The callback of the 30 second timer of request \<open>request_id\<close>.\<close>

definition on_timeout :: "string \<Rightarrow> tool \<Rightarrow> tool" where
  "on_timeout request_id s =
     (if map_has (pending_requests s) (Some (JStr request_id)) then
        (case map_get (pending_requests s) (Some (JStr request_id)) of
           None \<Rightarrow> s
         | Some p \<Rightarrow>
             let s1 = reject p (Error ''Request timeout'') s
             in s1\<lparr>pending_requests := map_delete (Some (JStr request_id)) (pending_requests s1)\<rparr>)
      else s)"

text \<open>
  The \<^verbatim>\<open>message\<close> listener. Its argument is what \<^verbatim>\<open>JSON.parse(event.data)\<close> returns,
  \<open>None\<close> when it throws. The \<^verbatim>\<open>try\<close> block catches that exception, the one that
  reading \<^verbatim>\<open>request_id\<close> of \<^verbatim>\<open>null\<close> throws, and the one that
  \<^verbatim>\<open>new Error(response.error)\<close> throws when the error cannot be converted to a string;
  each is logged only. In the last case \<^verbatim>\<open>reject\<close> has not been called and the
  \<^verbatim>\<open>delete\<close> that follows is not reached.
\<close>

definition on_message :: "json option \<Rightarrow> tool \<Rightarrow> tool" where
  "on_message parsed s =
     (case parsed of
        None \<Rightarrow> s
      | Some JNull \<Rightarrow> s
      | Some response \<Rightarrow>
          if js_truthy (get_prop response ''request_id'')
             \<and> map_has (pending_requests s) (get_prop response ''request_id'')
          then
            (case map_get (pending_requests s) (get_prop response ''request_id'') of
               None \<Rightarrow> s
             | Some p \<Rightarrow>
                 if js_truthy (get_prop response ''error'') then
                   (case new_Error (get_prop response ''error'') of
                      None \<Rightarrow> s
                    | Some err \<Rightarrow>
                        let s1 = reject p err s
                        in s1\<lparr>pending_requests :=
                               map_delete (get_prop response ''request_id'') (pending_requests s1)\<rparr>)
                 else
                   let s1 = resolve p (get_prop response ''data'') s
                   in s1\<lparr>pending_requests :=
                          map_delete (get_prop response ''request_id'') (pending_requests s1)\<rparr>)
          else s)"

subsection \<open>Operation facade\<close>

text \<open>The argument of \<^verbatim>\<open>_call\<close>, as the schema admits it: \<^verbatim>\<open>function\<close> is a string,
  \<^verbatim>\<open>project_name\<close> and \<^verbatim>\<open>file_path\<close> are optional strings.\<close>

record input =
  func :: string
  project_name :: "string option"
  file_path :: "string option"

text \<open>\<^verbatim>\<open>!v\<close> for an optional string: true when it is missing or empty.\<close>

definition js_not :: "string option \<Rightarrow> bool" where
  "js_not v = (case v of None \<Rightarrow> True | Some x \<Rightarrow> x = [])"

text \<open>The string held by an optional string that passed the test above; a missing one
  never reaches a request.\<close>

definition str :: "string option \<Rightarrow> string" where
  "str v = (case v of None \<Rightarrow> [] | Some x \<Rightarrow> x)"

text \<open>
  \<^verbatim>\<open>_getProjects\<close>, \<^verbatim>\<open>_getProjectTree\<close> and \<^verbatim>\<open>_getProjectFile\<close> up to their
  \<^verbatim>\<open>await\<close>: each returns the promise of \<^verbatim>\<open>sendWebSocketRequest\<close> it waits for.
\<close>

definition getProjects :: "string \<Rightarrow> tool \<Rightarrow> nat \<times> tool" where
  "getProjects request_id s = sendWebSocketRequest request_id ''get_projects'' (object_literal []) s"

definition getProjectTree :: "string \<Rightarrow> string \<Rightarrow> tool \<Rightarrow> nat \<times> tool" where
  "getProjectTree projectName request_id s =
     sendWebSocketRequest request_id ''get_project_tree''
       (object_literal [(''project_name'', JStr projectName)]) s"

definition getProjectFile :: "string \<Rightarrow> string \<Rightarrow> string \<Rightarrow> tool \<Rightarrow> nat \<times> tool" where
  "getProjectFile projectName filePath request_id s =
     sendWebSocketRequest request_id ''get_file''
       (object_literal [(''project_name'', JStr projectName), (''file_path'', JStr filePath)]) s"

text \<open>What the rest of each of the three does once the awaited promise has an outcome:
  a resolved value is returned through \<^verbatim>\<open>JSON.stringify\<close>, an error is logged and thrown
  again.\<close>

datatype completion = Pending | Returned "string option" | Raised error

definition after_await :: "outcome option \<Rightarrow> completion" where
  "after_await oc =
     (case oc of
        None \<Rightarrow> Pending
      | Some (Resolved response) \<Rightarrow> Returned (json_stringify response)
      | Some (Rejected err) \<Rightarrow> Raised err)"

text \<open>
  \<^verbatim>\<open>_call(input)\<close> up to its first suspension: it either throws before any request is
  made, or waits for the promise of a request. The request id is the one drawn by
  \<^verbatim>\<open>sendWebSocketRequest\<close>.
\<close>

datatype call_result = Threw error | Awaiting nat

definition call :: "input \<Rightarrow> string \<Rightarrow> tool \<Rightarrow> call_result \<times> tool" where
  "call inp request_id s =
     (if func inp = ''getProjects'' then
        (let (p, s') = getProjects request_id s in (Awaiting p, s'))
      else if func inp = ''getProjectTree'' then
        (if js_not (project_name inp) then (Threw (Error ''Project name is required''), s)
         else (let (p, s') = getProjectTree (str (project_name inp)) request_id s
               in (Awaiting p, s')))
      else if func inp = ''getProjectFile'' then
        (if js_not (project_name inp) then (Threw (Error ''Project name is required''), s)
         else if js_not (file_path inp) then (Threw (Error ''File path is required''), s)
         else (let (p, s') = getProjectFile (str (project_name inp)) (str (file_path inp))
                               request_id s
               in (Awaiting p, s')))
      else (Threw (Error (''Invalid function: '' @ func inp)), s))"

text \<open>The completion of the promise that \<^verbatim>\<open>_call\<close> returned, seen in a later state.\<close>

definition call_outcome :: "call_result \<Rightarrow> tool \<Rightarrow> completion" where
  "call_outcome r s =
     (case r of Threw err \<Rightarrow> Raised err | Awaiting p \<Rightarrow> after_await (outcome_of p s))"

section \<open>Events\<close>

text \<open>
  What can happen to a tool: the host calls \<^verbatim>\<open>connectWebSocket\<close>, \<^verbatim>\<open>_call\<close> or
  \<^verbatim>\<open>cleanup\<close>; a socket reports \<^verbatim>\<open>open\<close>, \<^verbatim>\<open>message\<close>, \<^verbatim>\<open>close\<close> or \<^verbatim>\<open>error\<close>; a
  timer fires. An event that cannot happen in the state (a socket event of a socket that
  is not in a state to report it, a timer that is not armed) changes nothing, and nothing
  happens after a crash. The library sets \<^verbatim>\<open>readyState\<close> before it calls the \<^verbatim>\<open>open\<close>
  and \<^verbatim>\<open>close\<close> listeners. The \<^verbatim>\<open>error\<close> listener only logs.
\<close>

datatype event =
    ConnectWebSocket
  | Call input string
  | Cleanup
  | SockOpen nat
  | SockMessage nat "json option"
  | SockClose nat
  | SockError nat
  | ReconnectTimer
  | RequestTimeout string

definition sock_is :: "tool \<Rightarrow> nat \<Rightarrow> ready_state \<Rightarrow> bool" where
  "sock_is s k st = (k < length (socks s) \<and> socks s ! k = st)"

fun handle :: "event \<Rightarrow> tool \<Rightarrow> tool" where
  "handle ConnectWebSocket s = connectWebSocket s"
| "handle (Call inp request_id) s = snd (call inp request_id s)"
| "handle Cleanup s = cleanup s"
| "handle (SockOpen k) s =
     (if sock_is s k CONNECTING then on_open (s\<lparr>socks := (socks s)[k := OPEN]\<rparr>) else s)"
| "handle (SockMessage k parsed) s =
     (if sock_is s k OPEN \<or> sock_is s k CLOSING then on_message parsed s else s)"
| "handle (SockClose k) s =
     (if k < length (socks s) \<and> \<not> sock_is s k CLOSED
      then on_close (s\<lparr>socks := (socks s)[k := CLOSED]\<rparr>) else s)"
| "handle (SockError k) s = s"
| "handle ReconnectTimer s =
     (if 0 < reconnects s then connectWebSocket (s\<lparr>reconnects := reconnects s - 1\<rparr>) else s)"
| "handle (RequestTimeout request_id) s =
     (if request_id \<in> set (timeouts s)
      then on_timeout request_id (s\<lparr>timeouts := remove1 request_id (timeouts s)\<rparr>) else s)"

definition step :: "event \<Rightarrow> tool \<Rightarrow> tool" where
  "step e s = (if crashed s then s else handle e s)"

fun run :: "event list \<Rightarrow> tool \<Rightarrow> tool" where
  "run [] s = s"
| "run (e # es) s = run es (step e s)"

section \<open>Notions used by the properties\<close>

text \<open>
  The bookkeeping that every reachable state keeps: the keys of the table are distinct, no
  promise sits under two keys, every promise in the table or in the log of settle calls has
  been created, no promise in the table has been settled, and no promise has been settled
  twice.
\<close>

definition consistent :: "tool \<Rightarrow> bool" where
  "consistent s =
     (distinct (map fst (pending_requests s)) \<and> distinct (map snd (pending_requests s))
      \<and> (\<forall>e \<in> set (pending_requests s). snd e < promises s)
      \<and> (\<forall>c \<in> set (settled s). fst c < promises s)
      \<and> (\<forall>e \<in> set (pending_requests s). snd e \<notin> fst ` set (settled s))
      \<and> distinct (map fst (settled s)))"

text \<open>Every request in the table has its timer armed.\<close>

definition armed :: "tool \<Rightarrow> bool" where
  "armed s = (\<forall>e \<in> set (pending_requests s). fst e \<in> set (timeouts s))"

text \<open>The handle, when present, is a socket the tool has created.\<close>

definition handle_ok :: "tool \<Rightarrow> bool" where
  "handle_ok s = (\<forall>k. ws s = Some k \<longrightarrow> k < length (socks s))"

text \<open>What both the timer callback and the \<^verbatim>\<open>message\<close> listener do with a request id:
  when the table has an entry for it, call one of its functions and delete the entry.\<close>

definition settle_entry :: "string \<Rightarrow> outcome \<Rightarrow> tool \<Rightarrow> tool" where
  "settle_entry x oc s =
     (case map_of (pending_requests s) x of
        None \<Rightarrow> s
      | Some p \<Rightarrow> s\<lparr>settled := settled s @ [(p, oc)],
                     pending_requests := AList.delete x (pending_requests s)\<rparr>)"

text \<open>The request id under which the \<^verbatim>\<open>message\<close> listener looks a parsed frame up: the
  \<^verbatim>\<open>request_id\<close> of an object, when it is a non-empty string.\<close>

definition match_key :: "json option \<Rightarrow> string option" where
  "match_key parsed =
     (case parsed of
        Some (JObj kvs) \<Rightarrow>
          (case get_prop (JObj kvs) ''request_id'' of
             Some (JStr x) \<Rightarrow> if x \<noteq> [] then Some x else None
           | _ \<Rightarrow> None)
      | _ \<Rightarrow> None)"

text \<open>The outcome that the listener hands to the promise of a response it has matched;
  \<open>None\<close> when the response has a truthy \<^verbatim>\<open>error\<close> that cannot be converted to a string,
  so that the listener ends in its \<^verbatim>\<open>catch\<close> without a call.\<close>

definition reply_outcome :: "json \<Rightarrow> outcome option" where
  "reply_outcome response =
     (if js_truthy (get_prop response ''error'')
      then (case new_Error (get_prop response ''error'') of
              None \<Rightarrow> None
            | Some err \<Rightarrow> Some (Rejected err))
      else Some (Resolved (get_prop response ''data'')))"

text \<open>The invariant of the reachable states.\<close>

definition inv :: "tool \<Rightarrow> bool" where
  "inv s = (consistent s \<and> armed s \<and> handle_ok s)"

text \<open>An input that passes the checks of \<^verbatim>\<open>_call\<close>, so that a request is made.\<close>

definition valid_input :: "input \<Rightarrow> bool" where
  "valid_input inp =
     (func inp = ''getProjects''
      \<or> (func inp = ''getProjectTree'' \<and> \<not> js_not (project_name inp))
      \<or> (func inp = ''getProjectFile'' \<and> \<not> js_not (project_name inp) \<and> \<not> js_not (file_path inp)))"

text \<open>The \<^verbatim>\<open>message\<close> listener run on a sequence of parsed objects, in their order of
  arrival.\<close>

fun on_messages :: "obj list \<Rightarrow> tool \<Rightarrow> tool" where
  "on_messages [] s = s"
| "on_messages (r # rs) s = on_messages rs (on_message (Some (JObj r)) s)"

text \<open>Whether an object carries the request id \<open>x\<close>.\<close>

definition answers :: "string \<Rightarrow> obj \<Rightarrow> bool" where
  "answers x r = (get_prop (JObj r) ''request_id'' = Some (JStr x))"

text \<open>Whether the listener, given an object that carries the request id \<open>x\<close>, gets as far
  as calling a function of the promise stored under \<open>x\<close>.\<close>

definition settles :: "string \<Rightarrow> obj \<Rightarrow> bool" where
  "settles x r = (answers x r \<and> reply_outcome (JObj r) \<noteq> None)"

subsection \<open>Example states and inputs\<close>

text \<open>A tool constructed with a good URL whose socket has opened: the verification message
  has been sent.\<close>

definition open_tool :: tool where
  "open_tool = run [SockOpen 0] (constructor False True)"

definition get_projects :: input where
  "get_projects = \<lparr>func = ''getProjects'', project_name = None, file_path = None\<rparr>"

definition get_tree :: input where
  "get_tree = \<lparr>func = ''getProjectTree'', project_name = Some ''proj1'', file_path = None\<rparr>"

definition get_file :: input where
  "get_file = \<lparr>func = ''getProjectFile'', project_name = Some ''proj1'', file_path = Some ''a.txt''\<rparr>"

text \<open>The same tool after \<^verbatim>\<open>_call({ function: 'getProjects' })\<close> has drawn the request id
  \<^verbatim>\<open>abc\<close>: one request is pending.\<close>

definition one_pending :: tool where
  "one_pending = run [SockOpen 0, Call get_projects ''abc''] (constructor False True)"

text \<open>A second request, \<^verbatim>\<open>getProjectTree\<close> with the request id \<^verbatim>\<open>def\<close>, made while the first
  is pending.\<close>

definition two_pending :: tool where
  "two_pending =
     run [SockOpen 0, Call get_projects ''abc'', Call get_tree ''def''] (constructor False True)"

section \<open>Supporting lemmas\<close>

subsection \<open>Association lists\<close>

lemma set_update_subset: "set (AList.update k v al) \<subseteq> insert (k, v) (set al)"
  by (induction al) auto

lemma distinct_snd_update:
  "distinct (map snd al) \<Longrightarrow> v \<notin> snd ` set al \<Longrightarrow> distinct (map snd (AList.update k v al))"
proof (induction al)
  case Nil
  then show ?case by simp
next
  case (Cons a al)
  have "snd ` set (AList.update k v al) \<subseteq> insert v (snd ` set al)"
    using set_update_subset[of k v al] by force
  with Cons show ?case by (cases a) auto
qed

lemma set_delete_subset: "set (AList.delete k al) \<subseteq> set al"
  by (induction al) auto

lemma distinct_snd_delete: "distinct (map snd al) \<Longrightarrow> distinct (map snd (AList.delete k al))"
proof (induction al)
  case Nil
  then show ?case by simp
next
  case (Cons a al)
  have "snd ` set (AList.delete k al) \<subseteq> snd ` set al"
    using set_delete_subset[of k al] by blast
  with Cons show ?case by auto
qed

lemma consistent_settle:
  assumes "consistent s" and "map_of (pending_requests s) x = Some p"
  shows "consistent (s\<lparr>settled := settled s @ [(p, oc)],
            pending_requests := AList.delete x (pending_requests s)\<rparr>)"
proof -
  have mem: "(x, p) \<in> set (pending_requests s)" using assms(2) by (rule map_of_SomeD)
  have sub: "set (AList.delete x (pending_requests s)) \<subseteq> set (pending_requests s)"
    by (rule set_delete_subset)
  have nx: "\<And>e. e \<in> set (AList.delete x (pending_requests s)) \<Longrightarrow> snd e \<noteq> p"
  proof
    fix e assume e: "e \<in> set (AList.delete x (pending_requests s))" and "snd e = p"
    then have "e \<in> set (pending_requests s)" using sub by blast
    moreover have "fst e \<noteq> x" using e by (auto simp: AList.delete_eq)
    ultimately show False
      using assms(1) mem \<open>snd e = p\<close> unfolding consistent_def
      by (metis distinct_map inj_onD prod.collapse fst_conv snd_conv)
  qed
  have fresh: "p \<notin> fst ` set (settled s)"
    using assms(1) mem unfolding consistent_def by force
  have lt: "p < promises s"
    using assms(1) mem unfolding consistent_def by force
  show ?thesis
    using assms(1) sub nx fresh lt unfolding consistent_def
    by (auto simp: distinct_delete distinct_snd_delete)
qed

subsection \<open>What the two handlers do with an entry\<close>

lemma on_timeout_settle:
  "on_timeout x s = settle_entry x (Rejected (Error ''Request timeout'')) s"
  by (simp add: on_timeout_def settle_entry_def map_has_def map_get_def map_delete_def key_of_def
      reject_def split: option.splits)

lemma on_message_not_object:
  "\<forall>kvs. j \<noteq> JObj kvs \<Longrightarrow> on_message (Some j) s = s"
  by (cases j) (simp_all add: on_message_def get_prop_def js_truthy_def)

lemma on_message_object:
  "on_message (Some (JObj kvs)) s =
     (case get_prop (JObj kvs) ''request_id'' of
        Some (JStr x) \<Rightarrow>
          if x \<noteq> [] then
            (case reply_outcome (JObj kvs) of
               None \<Rightarrow> s
             | Some oc \<Rightarrow> settle_entry x oc s)
          else s
      | _ \<Rightarrow> s)"
proof (cases "get_prop (JObj kvs) ''request_id''")
  case None
  then show ?thesis by (simp add: on_message_def js_truthy_def)
next
  case (Some v)
  show ?thesis
  proof (cases v)
    case (JStr x)
    show ?thesis
    proof (cases "map_of (pending_requests s) x")
      case None
      with Some JStr show ?thesis
        by (simp add: on_message_def js_truthy_def map_has_def key_of_def settle_entry_def
            split: option.splits)
    next
      case (Some p)
      with \<open>get_prop (JObj kvs) ''request_id'' = Some v\<close> JStr show ?thesis
        by (simp add: on_message_def js_truthy_def map_has_def map_get_def
            map_delete_def key_of_def settle_entry_def reply_outcome_def reject_def resolve_def
            split: option.splits)
    qed
  qed (use Some in \<open>simp_all add: on_message_def js_truthy_def map_has_def key_of_def\<close>)
qed

lemma on_message_settle:
  "on_message parsed s =
     (case match_key parsed of
        None \<Rightarrow> s
      | Some x \<Rightarrow>
          (case reply_outcome (the parsed) of
             None \<Rightarrow> s
           | Some oc \<Rightarrow> settle_entry x oc s))"
proof (cases parsed)
  case None
  then show ?thesis by (simp add: on_message_def match_key_def)
next
  case (Some j)
  show ?thesis
  proof (cases "\<exists>kvs. j = JObj kvs")
    case True
    then obtain kvs where "j = JObj kvs" by blast
    with Some show ?thesis
      by (simp add: on_message_object match_key_def split: option.splits json.splits)
  next
    case False
    then have "on_message (Some j) s = s" by (simp add: on_message_not_object)
    moreover have "match_key (Some j) = None"
      using False by (cases j) (simp_all add: match_key_def)
    ultimately show ?thesis using Some by simp
  qed
qed

lemma consistent_settle_entry: "consistent s \<Longrightarrow> consistent (settle_entry x oc s)"
  unfolding settle_entry_def by (simp add: consistent_settle split: option.splits)

lemma armed_settle_entry:
  assumes "\<forall>e \<in> set (pending_requests s). fst e \<noteq> x \<longrightarrow> fst e \<in> set (timeouts s)"
  shows "armed (settle_entry x oc s)"
proof (cases "map_of (pending_requests s) x")
  case None
  then have "\<forall>e \<in> set (pending_requests s). fst e \<noteq> x"
    by (metis map_of_eq_None_iff image_eqI)
  with assms None show ?thesis by (simp add: settle_entry_def armed_def)
next
  case (Some p)
  have "\<forall>e \<in> set (AList.delete x (pending_requests s)). fst e \<noteq> x \<and> e \<in> set (pending_requests s)"
    by (auto simp: AList.delete_eq)
  with assms Some show ?thesis by (simp add: settle_entry_def armed_def)
qed

lemma settle_entry_frame [simp]:
  "ws (settle_entry x oc s) = ws s" "socks (settle_entry x oc s) = socks s"
  "timeouts (settle_entry x oc s) = timeouts s" "promises (settle_entry x oc s) = promises s"
  "sent (settle_entry x oc s) = sent s" "crashed (settle_entry x oc s) = crashed s"
  "reconnects (settle_entry x oc s) = reconnects s" "url_ok (settle_entry x oc s) = url_ok s"
  by (simp_all add: settle_entry_def split: option.splits)

subsection \<open>The invariant is kept by every event\<close>

lemma inv_settle_entry:
  assumes "inv s"
  shows "inv (settle_entry x oc s)"
proof -
  have "\<forall>e \<in> set (pending_requests s). fst e \<noteq> x \<longrightarrow> fst e \<in> set (timeouts s)"
    using assms by (simp add: inv_def armed_def)
  then have "armed (settle_entry x oc s)" by (rule armed_settle_entry)
  then show ?thesis
    using assms by (simp add: inv_def consistent_settle_entry handle_ok_def)
qed

lemma inv_on_message: "inv s \<Longrightarrow> inv (on_message parsed s)"
  by (simp add: on_message_settle inv_settle_entry split: option.splits)

lemma inv_timeout:
  assumes "inv s"
  shows "inv (on_timeout x (s\<lparr>timeouts := remove1 x (timeouts s)\<rparr>))"
proof -
  let ?s = "s\<lparr>timeouts := remove1 x (timeouts s)\<rparr>"
  have c: "consistent ?s" using assms by (simp add: inv_def consistent_def)
  have a: "\<forall>e \<in> set (pending_requests ?s). fst e \<noteq> x \<longrightarrow> fst e \<in> set (timeouts ?s)"
    using assms by (auto simp: inv_def armed_def)
  have h: "handle_ok ?s" using assms by (simp add: inv_def handle_ok_def)
  show ?thesis
    unfolding on_timeout_settle inv_def
    using consistent_settle_entry[OF c] armed_settle_entry[OF a] h
    by (simp add: handle_ok_def)
qed

lemma inv_connectWebSocket: "inv s \<Longrightarrow> inv (connectWebSocket s)"
  by (auto simp: inv_def connectWebSocket_def consistent_def armed_def handle_ok_def)

lemma inv_cleanup: "inv s \<Longrightarrow> inv (cleanup s)"
  by (auto simp: inv_def cleanup_def ws_close_def consistent_def armed_def handle_ok_def
      split: option.splits)

lemma inv_on_open: "inv s \<Longrightarrow> inv (on_open s)"
  by (auto simp: inv_def on_open_def ws_send_def consistent_def armed_def handle_ok_def
      split: option.splits)

lemma inv_on_close: "inv s \<Longrightarrow> inv (on_close s)"
  by (auto simp: inv_def on_close_def consistent_def armed_def handle_ok_def)

lemma inv_socks_update: "inv s \<Longrightarrow> inv (s\<lparr>socks := (socks s)[k := st]\<rparr>)"
  by (auto simp: inv_def consistent_def armed_def handle_ok_def split: option.splits)

lemma inv_reconnects_update: "inv s \<Longrightarrow> inv (s\<lparr>reconnects := n\<rparr>)"
  by (auto simp: inv_def consistent_def armed_def handle_ok_def split: option.splits)

lemma send_not_connected:
  "\<not> connected s \<Longrightarrow>
   sendWebSocketRequest x t payload s =
     (promises s, s\<lparr>promises := promises s + 1,
        settled := settled s @ [(promises s, Rejected (Error ''WebSocket is not connected''))]\<rparr>)"
  by (auto simp: sendWebSocketRequest_def connected_def reject_def Let_def split: option.splits)

lemma send_connected:
  "connected s \<Longrightarrow> ws s = Some k \<Longrightarrow>
   sendWebSocketRequest x t payload s =
     (promises s, s\<lparr>promises := promises s + 1,
        pending_requests := AList.update x (promises s) (pending_requests s),
        timeouts := timeouts s @ [x],
        sent := sent s @ [(k, stringify (JObj (envelope x t payload)))]\<rparr>)"
  by (auto simp: sendWebSocketRequest_def connected_def ws_send_def Let_def split: option.splits)

lemma inv_send: 
  assumes "inv s"
  shows "inv (snd (sendWebSocketRequest x t payload s))"
proof (cases "connected s")
  case False
  have "promises s \<notin> fst ` set (settled s)"
    using assms by (force simp: inv_def consistent_def)
  then show ?thesis
    using assms False
    by (auto simp: send_not_connected inv_def consistent_def armed_def handle_ok_def
        less_Suc_eq split: option.splits)
next
  case True
  then obtain k where k: "ws s = Some k" by (auto simp: connected_def split: option.splits)
  let ?al = "AList.update x (promises s) (pending_requests s)"
  have sub: "\<forall>e \<in> set ?al. e = (x, promises s) \<or> e \<in> set (pending_requests s)"
    using set_update_subset[of x "promises s" "pending_requests s"] by blast
  have fresh: "promises s \<notin> snd ` set (pending_requests s)"
    using assms by (force simp: inv_def consistent_def)
  have fresh2: "promises s \<notin> fst ` set (settled s)"
    using assms by (force simp: inv_def consistent_def)
  have d2: "distinct (map snd ?al)"
    using assms fresh by (simp add: inv_def consistent_def distinct_snd_update)
  have c: "consistent (snd (sendWebSocketRequest x t payload s))"
    using assms sub fresh2 d2 unfolding send_connected[OF True k] inv_def consistent_def
    by (simp add: distinct_update less_Suc_eq) (metis snd_conv)
  have a: "armed (snd (sendWebSocketRequest x t payload s))"
    using assms sub unfolding send_connected[OF True k] inv_def armed_def
    by simp (metis fst_conv)
  have h: "handle_ok (snd (sendWebSocketRequest x t payload s))"
    using assms unfolding send_connected[OF True k] inv_def handle_ok_def by (simp add: k)
  show ?thesis using c a h by (simp add: inv_def)
qed

lemma inv_call: "inv s \<Longrightarrow> inv (snd (call inp x s))"
  by (simp add: call_def getProjects_def getProjectTree_def getProjectFile_def inv_send
      split_beta)

lemma inv_handle: "inv s \<Longrightarrow> inv (handle e s)"
  by (cases e)
    (simp_all add: inv_connectWebSocket inv_call inv_cleanup inv_on_open inv_socks_update
      inv_on_message inv_on_close inv_reconnects_update inv_timeout)

lemma inv_step: "inv s \<Longrightarrow> inv (step e s)"
  by (simp add: step_def inv_handle)

lemma inv_run: "inv s \<Longrightarrow> inv (run es s)"
  by (induction es arbitrary: s) (simp_all add: inv_step)

lemma inv_new_tool: "inv (new_tool ok)"
  by (simp add: inv_def consistent_def armed_def handle_ok_def new_tool_def)

lemma inv_reachable: "inv (run es (constructor override ok))"
  by (simp add: inv_run constructor_def inv_connectWebSocket inv_new_tool)

subsection \<open>Object literals and the spread\<close>

lemma map_of_obj_insert:
  "k \<notin> fst ` set ob \<Longrightarrow> map_of (obj_insert k v ob) k' = (if k' = k then Some v else map_of ob k')"
proof (induction ob)
  case Nil
  then show ?case by simp
next
  case (Cons a ob)
  obtain k'' v'' where a: "a = (k'', v'')" by (cases a)
  with Cons.prems have ne: "k'' \<noteq> k" and notin: "k \<notin> fst ` set ob" by auto
  show ?case
    using Cons.IH[OF notin] ne by (auto simp: a)
qed

lemma map_of_obj_set: "map_of (obj_set k v ob) k' = (if k' = k then Some v else map_of ob k')"
  by (simp add: obj_set_def map_of_obj_insert update_conv')

lemma map_of_obj_spread:
  "map_of (obj_spread target src) k =
     (case map_of (rev src) k of Some v \<Rightarrow> Some v | None \<Rightarrow> map_of target k)"
proof (induction src arbitrary: target)
  case Nil
  then show ?case by (simp add: obj_spread_def)
next
  case (Cons a src)
  obtain k' v' where a: "a = (k', v')" by (cases a)
  have unfold: "obj_spread target (a # src) = obj_spread (obj_set k' v' target) src"
    by (simp add: obj_spread_def a)
  show ?case
    unfolding unfold Cons.IH
    by (simp add: a map_of_obj_set map_add_def split: option.splits)
qed

lemma keys_obj_insert: "fst ` set (obj_insert k v ob) = insert k (fst ` set ob)"
  by (induction ob) (force split: if_splits)+

lemma distinct_obj_insert:
  "k \<notin> fst ` set ob \<Longrightarrow> distinct (map fst ob) \<Longrightarrow> distinct (map fst (obj_insert k v ob))"
proof (induction ob)
  case Nil
  then show ?case by simp
next
  case (Cons a ob)
  obtain k' v' where a: "a = (k', v')" by (cases a)
  have "k' \<notin> fst ` set (obj_insert k v ob)"
    using Cons.prems by (auto simp: a keys_obj_insert)
  then show ?case
    using Cons by (auto simp: a)
qed

lemma distinct_obj_set: "distinct (map fst ob) \<Longrightarrow> distinct (map fst (obj_set k v ob))"
  by (simp add: obj_set_def distinct_obj_insert distinct_update)

lemma distinct_obj_spread:
  "distinct (map fst target) \<Longrightarrow> distinct (map fst (obj_spread target src))"
proof (induction src arbitrary: target)
  case Nil
  then show ?case by (simp add: obj_spread_def)
next
  case (Cons a src)
  obtain k' v' where a: "a = (k', v')" by (cases a)
  have unfold: "obj_spread target (a # src) = obj_spread (obj_set k' v' target) src"
    by (simp add: obj_spread_def a)
  show ?case
    unfolding unfold by (rule Cons.IH) (simp add: distinct_obj_set Cons.prems)
qed

lemma distinct_object_literal: "distinct (map fst (object_literal props))"
  by (simp add: object_literal_def distinct_obj_spread)

lemma map_of_rev_distinct: "distinct (map fst xs) \<Longrightarrow> map_of (rev xs) k = map_of xs k"
proof (cases "map_of xs k")
  case None
  assume "distinct (map fst xs)"
  from None have "k \<notin> fst ` set xs" by (simp add: map_of_eq_None_iff)
  then have "map_of (rev xs) k = None" by (simp add: map_of_eq_None_iff)
  then show ?thesis using None by simp
next
  case (Some v)
  assume d: "distinct (map fst xs)"
  then have d': "distinct (map fst (rev xs))" by (simp add: rev_map[symmetric])
  from Some have "(k, v) \<in> set (rev xs)" by (auto dest: map_of_SomeD)
  then have "map_of (rev xs) k = Some v" using d' by (simp only: map_of_eq_Some_iff)
  then show ?thesis using Some by simp
qed

lemma get_prop_object_literal:
  "get_prop (JObj (object_literal props)) name = map_of (rev props) name"
  using map_of_rev_distinct[OF distinct_object_literal, of props name]
  by (simp add: get_prop_def object_literal_def map_of_obj_spread split: option.splits)

lemma envelope_lookup:
  "get_prop (JObj (envelope request_id type payload)) name =
     (case map_of (rev payload) name of
        Some v \<Rightarrow> Some v
      | None \<Rightarrow>
          if name = ''request_id'' then Some (JStr request_id)
          else if name = ''sender_type'' then Some (JStr ''plugin'')
          else if name = ''type'' then Some (JStr type)
          else None)"
  by (simp add: envelope_def get_prop_object_literal map_add_def split: option.splits)

subsection \<open>The example states\<close>

lemmas eval_defs = constructor_def new_tool_def connectWebSocket_def step_def sock_is_def on_open_def
  ws_send_def connection_verify_def object_literal_def obj_spread_def obj_set_def
  is_array_index_def is_digit_def quote_json_def escape_char_def dquote_def backslash_def
  call_def getProjects_def getProjectTree_def getProjectFile_def sendWebSocketRequest_def
  envelope_def js_not_def str_def reject_def resolve_def cleanup_def ws_close_def on_close_def
  on_timeout_def on_message_def map_has_def map_get_def map_delete_def key_of_def get_prop_def
  js_truthy_def new_Error_def call_outcome_def after_await_def outcome_of_def json_stringify_def
  calls_on_def connected_def open_tool_def get_projects_def get_tree_def get_file_def
  stringify_def finite_number_def

lemma open_tool_eq:
  "open_tool = \<lparr>url_ok = True, ws = Some 0, socks = [OPEN],
      sent = [(0, stringify (JObj connection_verify))], pending_requests = [], timeouts = [],
      reconnects = 0, promises = 0, settled = [], crashed = False\<rparr>"
  by (simp add: open_tool_def constructor_def new_tool_def connectWebSocket_def step_def
      sock_is_def on_open_def ws_send_def)

lemma connected_open_tool: "connected open_tool" "ws open_tool = Some 0"
  by (simp_all add: open_tool_eq connected_def)

subsection \<open>The facade\<close>

lemma call_valid:
  assumes "valid_input inp"
  shows "\<exists>t payload. call inp x s = (Awaiting (fst (sendWebSocketRequest x t payload s)),
                      snd (sendWebSocketRequest x t payload s))
           \<and> t \<in> {''get_projects'', ''get_project_tree'', ''get_file''}
           \<and> fst ` set payload \<subseteq> {''project_name'', ''file_path''}"
proof -
  have a: "object_literal [] = []"
    by (simp add: object_literal_def obj_spread_def)
  have b: "\<And>v. object_literal [(''project_name'', v)] = [(''project_name'', v)]"
    by (simp add: object_literal_def obj_spread_def obj_set_def)
  have c: "\<And>v w. object_literal [(''project_name'', v), (''file_path'', w)]
              = [(''project_name'', v), (''file_path'', w)]"
    by (simp add: object_literal_def obj_spread_def obj_set_def is_array_index_def is_digit_def)
  consider "func inp = ''getProjects''"
    | "func inp = ''getProjectTree''" "\<not> js_not (project_name inp)"
    | "func inp = ''getProjectFile''" "\<not> js_not (project_name inp)" "\<not> js_not (file_path inp)"
    using assms by (auto simp: valid_input_def)
  then show ?thesis
  proof cases
    case 1
    then have "call inp x s = (Awaiting (fst (sendWebSocketRequest x ''get_projects'' [] s)),
        snd (sendWebSocketRequest x ''get_projects'' [] s))"
      by (simp add: call_def getProjects_def a split_beta)
    then show ?thesis by (intro exI[of _ "''get_projects''"] exI[of _ "[]"]) simp
  next
    case 2
    let ?pl = "[(''project_name'', JStr (str (project_name inp)))]"
    from 2 have "call inp x s = (Awaiting (fst (sendWebSocketRequest x ''get_project_tree'' ?pl s)),
        snd (sendWebSocketRequest x ''get_project_tree'' ?pl s))"
      by (simp add: call_def getProjectTree_def b split_beta)
    then show ?thesis by (intro exI[of _ "''get_project_tree''"] exI[of _ ?pl]) simp
  next
    case 3
    let ?pl = "[(''project_name'', JStr (str (project_name inp))),
                (''file_path'', JStr (str (file_path inp)))]"
    from 3 have "call inp x s = (Awaiting (fst (sendWebSocketRequest x ''get_file'' ?pl s)),
        snd (sendWebSocketRequest x ''get_file'' ?pl s))"
      by (simp add: call_def getProjectFile_def c split_beta)
    then show ?thesis by (intro exI[of _ "''get_file''"] exI[of _ ?pl]) simp
  qed
qed

lemma call_awaiting_valid: "call inp x s = (Awaiting p, s') \<Longrightarrow> valid_input inp"
  by (auto simp: call_def valid_input_def split: if_splits)

lemma map_of_update_same: "map_of (AList.update k v al) k = Some v"
  by (simp add: update_conv')



subsection \<open>Calls on a promise, entries of the table\<close>

lemma calls_on_unsettled: "p \<notin> fst ` set (settled s) \<Longrightarrow> calls_on p s = []"
  by (auto simp: calls_on_def filter_empty_conv)


lemma settle_entry_present:
  "map_of (pending_requests s) x = Some p \<Longrightarrow>
   settle_entry x oc s = s\<lparr>settled := settled s @ [(p, oc)],
                     pending_requests := AList.delete x (pending_requests s)\<rparr>"
  by (simp add: settle_entry_def)




lemma entry_unsettled:
  "inv s \<Longrightarrow> map_of (pending_requests s) x = Some p \<Longrightarrow> calls_on p s = []"
proof -
  assume i: "inv s" and m: "map_of (pending_requests s) x = Some p"
  from m have "(x, p) \<in> set (pending_requests s)" by (rule map_of_SomeD)
  with i have "p \<notin> fst ` set (settled s)" by (force simp: inv_def consistent_def)
  then show ?thesis by (rule calls_on_unsettled)
qed


lemma one_pending_eq:
  "one_pending = \<lparr>url_ok = True, ws = Some 0, socks = [OPEN],
      sent = [(0, stringify (JObj connection_verify)),
              (0, stringify (JObj (envelope ''abc'' ''get_projects'' [])))],
      pending_requests = [(''abc'', 0)], timeouts = [''abc''],
      reconnects = 0, promises = 1, settled = [], crashed = False\<rparr>"
  by (simp add: one_pending_def constructor_def new_tool_def connectWebSocket_def step_def
      sock_is_def on_open_def ws_send_def get_projects_def call_def getProjects_def
      sendWebSocketRequest_def object_literal_def obj_spread_def)




lemma cleanup_frame:
  "pending_requests (cleanup s) = pending_requests s" "settled (cleanup s) = settled s"
  "timeouts (cleanup s) = timeouts s" "reconnects (cleanup s) = reconnects s"
  "ws (cleanup s) = None" "length (socks (cleanup s)) = length (socks s)"
  "crashed (cleanup s) = crashed s" "url_ok (cleanup s) = url_ok s"
  by (simp_all add: cleanup_def ws_close_def split: option.splits)


subsection \<open>Events that create no socket\<close>

lemma send_ws [simp]:
  "ws (snd (sendWebSocketRequest x t pl s)) = ws s"
  "length (socks (snd (sendWebSocketRequest x t pl s))) = length (socks s)"
  by (simp_all add: sendWebSocketRequest_def reject_def ws_send_def Let_def split: option.splits)

lemma call_ws [simp]:
  "ws (snd (call inp x s)) = ws s" "length (socks (snd (call inp x s))) = length (socks s)"
  by (simp_all add: call_def getProjects_def getProjectTree_def getProjectFile_def split_beta)

lemma on_message_ws [simp]:
  "ws (on_message parsed s) = ws s" "socks (on_message parsed s) = socks s"
  by (simp_all add: on_message_settle split: option.splits)

lemma on_timeout_ws [simp]:
  "ws (on_timeout x s) = ws s" "socks (on_timeout x s) = socks s"
  by (simp_all add: on_timeout_settle)

lemma handle_no_socket:
  assumes "ws s = None" and "e \<noteq> ReconnectTimer" and "e \<noteq> ConnectWebSocket"
  shows "ws (handle e s) = None \<and> length (socks (handle e s)) = length (socks s)"
  using assms by (cases e) (simp_all add: on_open_def on_close_def cleanup_frame)

lemma run_no_socket:
  assumes "ws s = None" and "ReconnectTimer \<notin> set evs" and "ConnectWebSocket \<notin> set evs"
  shows "ws (run evs s) = None \<and> length (socks (run evs s)) = length (socks s)"
  using assms
proof (induction evs arbitrary: s)
  case Nil
  then show ?case by simp
next
  case (Cons e evs)
  have "e \<noteq> ReconnectTimer" "e \<noteq> ConnectWebSocket" using Cons.prems by auto
  then have "ws (step e s) = None \<and> length (socks (step e s)) = length (socks s)"
    using Cons.prems(1) handle_no_socket[of s e] by (simp add: step_def)
  with Cons show ?case by simp
qed

subsection \<open>Responses and the promises they settle\<close>

lemma outcome_of_first:
  "calls_on p s = [] \<Longrightarrow> outcome_of p (s\<lparr>settled := settled s @ [(p, oc)]\<rparr>) = Some oc"
proof -
  assume "calls_on p s = []"
  then have "p \<notin> fst ` set (settled s)"
    by (auto simp: calls_on_def filter_empty_conv)
  then have "map_of (settled s) p = None" by (simp add: map_of_eq_None_iff)
  then show ?thesis by (simp add: outcome_of_def map_add_def)
qed

lemma await_returns_serialized_data:
  assumes "inv s"
    and "map_of (pending_requests s) request_id = Some p" and "request_id \<noteq> []"
    and "get_prop (JObj response) ''request_id'' = Some (JStr request_id)"
    and "\<not> js_truthy (get_prop (JObj response) ''error'')"
    and "get_prop (JObj response) ''data'' = Some d"
  shows "call_outcome (Awaiting p) (on_message (Some (JObj response)) s)
           = Returned (Some (stringify d))"
proof -
  have u: "calls_on p s = []" using assms(1,2) by (rule entry_unsettled)
  have "on_message (Some (JObj response)) s =
      s\<lparr>settled := settled s @ [(p, Resolved (Some d))],
        pending_requests := AList.delete request_id (pending_requests s)\<rparr>"
    using assms(3-6)
    by (simp add: on_message_object settle_entry_present[OF assms(2)] reply_outcome_def)
  moreover have "outcome_of p (s\<lparr>settled := settled s @ [(p, Resolved (Some d))],
        pending_requests := AList.delete request_id (pending_requests s)\<rparr>)
      = Some (Resolved (Some d))"
    using outcome_of_first[OF u, of "Resolved (Some d)"] by (simp add: outcome_of_def)
  ultimately show ?thesis
    by (simp add: call_outcome_def after_await_def json_stringify_def)
qed

lemma settle_entry_other:
  "x \<noteq> y \<Longrightarrow> map_of (pending_requests (settle_entry y oc s)) x = map_of (pending_requests s) x"
  by (simp add: settle_entry_def delete_conv' split: option.splits)

lemma settle_entry_calls_other:
  assumes "map_of (pending_requests s) y \<noteq> Some p"
  shows "calls_on p (settle_entry y oc s) = calls_on p s"
  using assms by (auto simp: settle_entry_def calls_on_def split: option.splits)

lemma settle_entry_values:
  "snd ` set (pending_requests (settle_entry y oc s)) \<subseteq> snd ` set (pending_requests s)"
  using set_delete_subset[of y "pending_requests s"]
  by (auto simp: settle_entry_def split: option.splits)

lemma on_message_settled_stays:
  assumes "p \<notin> snd ` set (pending_requests s)"
  shows "calls_on p (on_message parsed s) = calls_on p s
     \<and> p \<notin> snd ` set (pending_requests (on_message parsed s))"
proof (cases "match_key parsed")
  case None
  then show ?thesis using assms by (simp add: on_message_settle)
next
  case (Some y)
  have "map_of (pending_requests s) y \<noteq> Some p"
    using assms by (metis map_of_SomeD image_eqI snd_conv)
  then show ?thesis
    using assms Some settle_entry_values[of y _ s]
    by (auto simp: on_message_settle settle_entry_calls_other split: option.splits)
qed

lemma on_messages_settled_stays:
  "p \<notin> snd ` set (pending_requests s) \<Longrightarrow> calls_on p (on_messages rs s) = calls_on p s"
proof (induction rs arbitrary: s)
  case Nil
  then show ?case by simp
next
  case (Cons r rs)
  from on_message_settled_stays[OF Cons.prems, of "Some (JObj r)"]
  show ?case using Cons.IH by simp
qed

lemma settled_not_in_table:
  assumes "inv s" and "map_of (pending_requests s) x = Some p"
  shows "p \<notin> snd ` set (pending_requests (settle_entry x oc s))"
proof
  assume "p \<in> snd ` set (pending_requests (settle_entry x oc s))"
  then have "p \<in> snd ` set (AList.delete x (pending_requests s))"
    by (simp add: settle_entry_present[OF assms(2)])
  then obtain e where e: "e \<in> set (AList.delete x (pending_requests s))" and p: "snd e = p"
    by (auto simp: image_iff)
  have inj: "inj_on snd (set (pending_requests s))"
    using assms(1) by (simp add: inv_def consistent_def distinct_map)
  have m: "(x, p) \<in> set (pending_requests s)" using assms(2) by (rule map_of_SomeD)
  have e': "e \<in> set (pending_requests s)" by (rule subsetD[OF set_delete_subset e])
  have "snd e = snd (x, p)" using p by simp
  then have "e = (x, p)" by (rule inj_onD[OF inj _ e' m])
  moreover have "fst e \<noteq> x" using e by (auto simp: AList.delete_eq)
  ultimately show False by simp
qed

lemma two_pending_eq:
  "two_pending = \<lparr>url_ok = True, ws = Some 0, socks = [OPEN],
      sent = [(0, stringify (JObj connection_verify)),
              (0, stringify (JObj (envelope ''abc'' ''get_projects'' []))),
              (0, stringify (JObj (envelope ''def'' ''get_project_tree''
                     [(''project_name'', JStr ''proj1'')])))],
      pending_requests = [(''abc'', 0), (''def'', 1)], timeouts = [''abc'', ''def''],
      reconnects = 0, promises = 2, settled = [], crashed = False\<rparr>"
  by (simp add: two_pending_def constructor_def new_tool_def connectWebSocket_def step_def
      sock_is_def on_open_def ws_send_def get_projects_def get_tree_def call_def getProjects_def
      getProjectTree_def js_not_def str_def sendWebSocketRequest_def object_literal_def
      obj_spread_def obj_set_def)



lemma match_key_answers: "match_key (Some (JObj r)) = Some y \<Longrightarrow> answers y r"
  by (auto simp: match_key_def answers_def split: option.splits json.splits if_splits)



lemma outcome_of_calls:
  "outcome_of p s = (case calls_on p s of [] \<Rightarrow> None | oc # _ \<Rightarrow> Some oc)"
proof -
  have "map_of cs p = (case map snd (filter (\<lambda>c. fst c = p) cs) of [] \<Rightarrow> None | oc # _ \<Rightarrow> Some oc)"
    for cs :: "(nat \<times> outcome) list"
    by (induction cs) auto
  then show ?thesis by (simp add: outcome_of_def calls_on_def)
qed

subsection \<open>The log of calls only grows\<close>









lemma run_append: "run (es @ es') s = run es' (run es s)"
  by (induction es arbitrary: s) simp_all

subsection \<open>An entry until it is settled\<close>

lemma on_message_answer:
  assumes "answers x r" and "x \<noteq> []"
  shows "on_message (Some (JObj r)) s =
     (case reply_outcome (JObj r) of None \<Rightarrow> s | Some oc \<Rightarrow> settle_entry x oc s)"
  using assms by (simp add: on_message_object answers_def)


lemma settle_entry_calls:
  assumes "inv s" and "map_of (pending_requests s) x = Some p"
  shows "calls_on p (settle_entry x oc s) = [oc]"
  using entry_unsettled[OF assms] by (simp add: settle_entry_present[OF assms(2)] calls_on_def)




subsection \<open>A promise that is not in the table\<close>





lemma calls_on_fields [simp]:
  "calls_on p (s\<lparr>socks := a\<rparr>) = calls_on p s" "calls_on p (s\<lparr>reconnects := b\<rparr>) = calls_on p s"
  "calls_on p (s\<lparr>timeouts := c\<rparr>) = calls_on p s"
  by (simp_all add: calls_on_def)

lemma settle_entry_promises [simp]: "promises (settle_entry y oc s) = promises s"
  by (simp add: settle_entry_def split: option.splits)

lemma on_message_promises [simp]: "promises (on_message parsed s) = promises s"
  by (simp add: on_message_settle split: option.splits)





subsection \<open>A sequence of responses\<close>

lemma first_answer_settles:
  assumes "inv s" and "map_of (pending_requests s) x = Some p" and "x \<noteq> []"
  shows "calls_on p (on_messages rs s) =
           (case find (settles x) rs of
              None \<Rightarrow> []
            | Some r \<Rightarrow> (case reply_outcome (JObj r) of None \<Rightarrow> [] | Some oc \<Rightarrow> [oc]))
     \<and> (find (settles x) rs = None \<longrightarrow> map_of (pending_requests (on_messages rs s)) x = Some p)"
  using assms
proof (induction rs arbitrary: s)
  case Nil
  then show ?case by (simp add: entry_unsettled)
next
  case (Cons r rs)
  let ?s = "on_message (Some (JObj r)) s"
  show ?case
  proof (cases "settles x r")
    case True
    then obtain oc where a: "answers x r" and oc: "reply_outcome (JObj r) = Some oc"
      by (auto simp: settles_def)
    have s': "?s = settle_entry x oc s"
      using on_message_answer[OF a Cons.prems(3)] oc by simp
    have "calls_on p ?s = [oc]"
      unfolding s' using Cons.prems(1,2) by (rule settle_entry_calls)
    moreover have "p \<notin> snd ` set (pending_requests ?s)"
      unfolding s' using Cons.prems(1,2) by (rule settled_not_in_table)
    ultimately have "calls_on p (on_messages rs ?s) = [oc]"
      by (simp add: on_messages_settled_stays)
    then show ?thesis using True oc by simp
  next
    case False
    have i: "inv ?s" using Cons.prems(1) by (rule inv_on_message)
    have m: "map_of (pending_requests ?s) x = Some p"
    proof (cases "answers x r")
      case True
      then have "reply_outcome (JObj r) = None" using False by (simp add: settles_def)
      then have "?s = s" using on_message_answer[OF True Cons.prems(3)] by simp
      then show ?thesis using Cons.prems(2) by simp
    next
      case na: False
      show ?thesis
      proof (cases "match_key (Some (JObj r))")
        case None
        then show ?thesis using Cons.prems(2) by (simp add: on_message_settle)
      next
        case (Some y)
        then have "answers y r" by (rule match_key_answers)
        then have "x \<noteq> y" using na by auto
        then show ?thesis
          using Some Cons.prems(2)
          by (simp add: on_message_settle settle_entry_other split: option.splits)
      qed
    qed
    from Cons.IH[OF i m Cons.prems(3)] False show ?thesis by simp
  qed
qed

section \<open>The properties\<close>

subsection \<open>C1: the outbound envelope\<close>

text \<open>
  C1 says that every outbound request carries a field named \<^verbatim>\<open>sender_role\<close> with the value
  \<^verbatim>\<open>plugin\<close>. The code names the field \<^verbatim>\<open>sender_type\<close>, in the request as in the
  verification message: the frames that \<^verbatim>\<open>getProjects\<close> with request id \<^verbatim>\<open>abc\<close> leaves
  on an open socket have no \<^verbatim>\<open>sender_role\<close>.
\<close>

theorem sender_role_counterexample:
  \<open>sent (snd (call get_projects ''abc'' open_tool)) =
     [(0, ''{"sender_type":"plugin","type":"connection_verify","request_id":"initial-connection"}''),
      (0, ''{"request_id":"abc","sender_type":"plugin","type":"get_projects"}'')]
   \<and> get_prop (JObj (envelope ''abc'' ''get_projects'' (object_literal []))) ''sender_role'' = None\<close>
  by (simp add: eval_defs open_tool_eq)

text \<open>
  C1, amended: on an open socket \<^verbatim>\<open>sendWebSocketRequest\<close> writes exactly the serialization of
  \<^verbatim>\<open>{ request_id, sender_type: 'plugin', type, ...payload }\<close>, in which a property of the
  payload replaces a fixed field of the same name and every other fixed field keeps its
  value; for the three operations of the facade the envelope is the fixed fields
  \<^verbatim>\<open>request_id\<close>, \<^verbatim>\<open>sender_type\<close> = \<^verbatim>\<open>plugin\<close> and \<^verbatim>\<open>type\<close>, followed by
  \<^verbatim>\<open>project_name\<close> and \<^verbatim>\<open>file_path\<close> as the operation has them.
\<close>

theorem outbound_envelope:
  assumes "connected s" and "ws s = Some k"
  shows "sent (snd (sendWebSocketRequest request_id type payload s))
           = sent s @ [(k, stringify (JObj (envelope request_id type payload)))]
     \<and> get_prop (JObj (envelope request_id type payload)) name =
         (case map_of (rev payload) name of
            Some v \<Rightarrow> Some v
          | None \<Rightarrow>
              if name = ''request_id'' then Some (JStr request_id)
              else if name = ''sender_type'' then Some (JStr ''plugin'')
              else if name = ''type'' then Some (JStr type)
              else None)
     \<and> sent (snd (call \<lparr>func = ''getProjects'', project_name = pn, file_path = fp\<rparr> request_id s))
           = sent s @ [(k, stringify (JObj
               [(''request_id'', JStr request_id), (''sender_type'', JStr ''plugin''),
                (''type'', JStr ''get_projects'')]))]
     \<and> (\<not> js_not pn \<longrightarrow>
          sent (snd (call \<lparr>func = ''getProjectTree'', project_name = pn, file_path = fp\<rparr> request_id s))
           = sent s @ [(k, stringify (JObj
               [(''request_id'', JStr request_id), (''sender_type'', JStr ''plugin''),
                (''type'', JStr ''get_project_tree''), (''project_name'', JStr (str pn))]))])
     \<and> (\<not> js_not pn \<and> \<not> js_not fp \<longrightarrow>
          sent (snd (call \<lparr>func = ''getProjectFile'', project_name = pn, file_path = fp\<rparr> request_id s))
           = sent s @ [(k, stringify (JObj
               [(''request_id'', JStr request_id), (''sender_type'', JStr ''plugin''),
                (''type'', JStr ''get_file''), (''project_name'', JStr (str pn)),
                (''file_path'', JStr (str fp))]))])"
proof -
  have lit0: "envelope request_id ''get_projects'' (object_literal []) =
      [(''request_id'', JStr request_id), (''sender_type'', JStr ''plugin''),
       (''type'', JStr ''get_projects'')]"
    by (simp add: envelope_def object_literal_def obj_spread_def obj_set_def is_array_index_def
        is_digit_def)
  have lit1: "envelope request_id ''get_project_tree''
        (object_literal [(''project_name'', JStr (str pn))]) =
      [(''request_id'', JStr request_id), (''sender_type'', JStr ''plugin''),
       (''type'', JStr ''get_project_tree''), (''project_name'', JStr (str pn))]"
    by (simp add: envelope_def object_literal_def obj_spread_def obj_set_def is_array_index_def
        is_digit_def)
  have lit2: "envelope request_id ''get_file''
        (object_literal [(''project_name'', JStr (str pn)), (''file_path'', JStr (str fp))]) =
      [(''request_id'', JStr request_id), (''sender_type'', JStr ''plugin''),
       (''type'', JStr ''get_file''), (''project_name'', JStr (str pn)),
       (''file_path'', JStr (str fp))]"
    by (simp add: envelope_def object_literal_def obj_spread_def obj_set_def is_array_index_def
        is_digit_def)
  show ?thesis
    by (simp add: send_connected[OF assms] envelope_lookup call_def getProjects_def
        getProjectTree_def getProjectFile_def lit0 lit1 lit2)
qed

theorem outbound_envelope_witness:
  \<open>connected open_tool \<and> ws open_tool = Some 0
   \<and> sent (snd (call get_file ''abc'' open_tool)) = sent open_tool @
       [(0, ''{"request_id":"abc","sender_type":"plugin","type":"get_file","project_name":"proj1","file_path":"a.txt"}'')]
   \<and> get_prop (JObj (envelope ''abc'' ''get_file'' [(''type'', JStr ''x'')])) ''type'' = Some (JStr ''x'')
   \<and> get_prop (JObj (envelope ''abc'' ''get_file'' [(''type'', JStr ''x'')])) ''sender_type'' = Some (JStr ''plugin'')\<close>
  using outbound_envelope [OF connected_open_tool, of "''abc''" "''get_file''" "[(''type'', JStr ''x'')]" "''type''" "Some ''proj1''" "Some ''a.txt''"]
    outbound_envelope [OF connected_open_tool, of "''abc''" "''get_file''" "[(''type'', JStr ''x'')]" "''sender_type''" "Some ''proj1''" "Some ''a.txt''"]
  by (simp add: connected_open_tool get_file_def js_not_def str_def quote_json_def escape_char_def
      dquote_def backslash_def stringify_def object_literal_def obj_spread_def obj_set_def
      is_array_index_def is_digit_def)

subsection \<open>C2: every pending request is settled exactly once\<close>




subsection \<open>C3: reconnection after teardown\<close>

text \<open>
  C3 says that after teardown no new socket is opened without a fresh explicit connect. The
  \<^verbatim>\<open>close\<close> listener of the socket that \<^verbatim>\<open>cleanup\<close> closed arms the reconnection timer
  as for any other close, and the timer opens a second socket: after \<^verbatim>\<open>cleanup\<close>, the
  \<^verbatim>\<open>close\<close> event of socket 0 and the timer, the handle is socket 1, connecting.
\<close>

theorem reconnect_after_teardown_counterexample:
  "ws (run [Cleanup] open_tool) = None
   \<and> socks (run [Cleanup] open_tool) = [CLOSING]
   \<and> ws (run [Cleanup, SockClose 0, ReconnectTimer] open_tool) = Some 1
   \<and> socks (run [Cleanup, SockClose 0, ReconnectTimer] open_tool) = [CLOSED, CONNECTING]"
  by (simp add: open_tool_eq step_def cleanup_def ws_close_def sock_is_def on_close_def
      connectWebSocket_def)

text \<open>
  C3, amended: after teardown the handle is absent, and no event other than the firing of a
  reconnection timer or an explicit \<^verbatim>\<open>connectWebSocket\<close> restores it or creates a socket.
  Teardown is not absorbing: it cancels no reconnection timer, the \<^verbatim>\<open>close\<close> event of the
  open socket it closed arms one more, and a reconnection timer that fires after teardown
  creates a new socket when the URL is good.
\<close>

theorem teardown_until_reconnect:
  assumes "ReconnectTimer \<notin> set evs" and "ConnectWebSocket \<notin> set evs"
  shows "ws (run evs (cleanup s)) = None
     \<and> length (socks (run evs (cleanup s))) = length (socks s)
     \<and> reconnects (cleanup s) = reconnects s
     \<and> (\<not> crashed s \<and> ws s = Some k \<and> sock_is s k OPEN \<longrightarrow>
          reconnects (step (SockClose k) (cleanup s)) = reconnects s + 1)
     \<and> (\<not> crashed s \<and> url_ok s \<and> 0 < reconnects s \<longrightarrow>
          ws (step ReconnectTimer (cleanup s)) = Some (length (socks s))
        \<and> socks (step ReconnectTimer (cleanup s)) = socks (cleanup s) @ [CONNECTING])"
proof -
  have a: "ws (run evs (cleanup s)) = None
     \<and> length (socks (run evs (cleanup s))) = length (socks s)"
    using run_no_socket[of "cleanup s" evs] assms by (simp add: cleanup_frame)
  have b: "reconnects (step (SockClose k) (cleanup s)) = reconnects s + 1"
    if "\<not> crashed s" "ws s = Some k" "sock_is s k OPEN"
    using that by (simp add: step_def sock_is_def cleanup_def ws_close_def on_close_def)
  have c: "ws (step ReconnectTimer (cleanup s)) = Some (length (socks s))
        \<and> socks (step ReconnectTimer (cleanup s)) = socks (cleanup s) @ [CONNECTING]"
    if "\<not> crashed s" "url_ok s" "0 < reconnects s"
    using that by (simp add: step_def connectWebSocket_def cleanup_frame)
  show ?thesis using a b c by (simp add: cleanup_frame)
qed

theorem teardown_until_reconnect_witness:
  "ws (run [SockMessage 0 None, SockClose 0, RequestTimeout ''abc''] (cleanup one_pending)) = None
   \<and> length (socks (run [SockMessage 0 None, SockClose 0, RequestTimeout ''abc''] (cleanup one_pending)))
       = length (socks one_pending)
   \<and> reconnects (step (SockClose 0) (cleanup one_pending)) = reconnects one_pending + 1
   \<and> ws (step ReconnectTimer (cleanup (step (SockClose 0) one_pending)))
       = Some (length (socks (step (SockClose 0) one_pending)))"
proof -
  have h: "\<not> crashed one_pending \<and> ws one_pending = Some 0 \<and> sock_is one_pending 0 OPEN"
    by (simp add: one_pending_eq sock_is_def)
  have g: "\<not> crashed (step (SockClose 0) one_pending) \<and> url_ok (step (SockClose 0) one_pending)
      \<and> 0 < reconnects (step (SockClose 0) one_pending)"
    by (simp add: one_pending_eq step_def sock_is_def on_close_def)
  have n: "ReconnectTimer \<notin> set [SockMessage 0 None, SockClose 0, RequestTimeout ''abc'']"
      "ConnectWebSocket \<notin> set [SockMessage 0 None, SockClose 0, RequestTimeout ''abc'']"
    by simp_all
  show ?thesis
    using teardown_until_reconnect [OF n, of one_pending 0]
      teardown_until_reconnect [OF n, of "step (SockClose 0) one_pending" 0] h g
    by blast
qed

subsection \<open>C4: the outcome of a matched response\<close>

text \<open>
  C4 says that the presence of an \<^verbatim>\<open>error\<close> field rejects the request. The listener tests
  \<^verbatim>\<open>if (response.error)\<close>, the truthiness of the field: a response whose \<^verbatim>\<open>error\<close> is
  the empty string resolves the request, here with \<^verbatim>\<open>undefined\<close> since it has no
  \<^verbatim>\<open>data\<close>.
\<close>

theorem falsy_error_counterexample:
  "settled (on_message (Some (JObj [(''request_id'', JStr ''abc''), (''error'', JStr [])]))
             (snd (call get_projects ''abc'' open_tool)))
     = [(0, Resolved None)]
   \<and> map_of (pending_requests (snd (call get_projects ''abc'' open_tool))) ''abc'' = Some 0"
  by (simp add: eval_defs open_tool_eq)

text \<open>
  C4, amended: for every parsed response whose \<^verbatim>\<open>request_id\<close> is a non-empty string that
  is a key of the table, the listener does one of three things. When \<^verbatim>\<open>error\<close> is absent
  or falsy (\<^verbatim>\<open>null\<close>, \<^verbatim>\<open>false\<close>, \<^verbatim>\<open>0\<close>, the empty string) it resolves the promise
  with the \<^verbatim>\<open>data\<close> field, which is \<^verbatim>\<open>undefined\<close> when absent, and deletes the entry.
  When \<^verbatim>\<open>error\<close> is truthy and can be converted to a string it rejects the promise with
  an error whose message is that string (the remote's string itself when the field is a
  non-empty string), and deletes the entry. When \<^verbatim>\<open>error\<close> is truthy and the conversion
  throws (an object with a member named \<^verbatim>\<open>toString\<close>, or an array that holds one) the
  exception is caught and logged: the promise is not called and the entry stays in the table.
\<close>

theorem response_outcome:
  assumes "get_prop (JObj response) ''request_id'' = Some (JStr x)" and "x \<noteq> []"
    and "map_of (pending_requests s) x = Some p"
  shows "on_message (Some (JObj response)) s =
     (case get_prop (JObj response) ''error'' of
        None \<Rightarrow>
          s\<lparr>settled := settled s @ [(p, Resolved (get_prop (JObj response) ''data''))],
            pending_requests := AList.delete x (pending_requests s)\<rparr>
      | Some e \<Rightarrow>
          if truthy e then
            (case js_to_string e of
               None \<Rightarrow> s
             | Some msg \<Rightarrow>
                 s\<lparr>settled := settled s @ [(p, Rejected (Error msg))],
                   pending_requests := AList.delete x (pending_requests s)\<rparr>)
          else
            s\<lparr>settled := settled s @ [(p, Resolved (get_prop (JObj response) ''data''))],
              pending_requests := AList.delete x (pending_requests s)\<rparr>)
     \<and> js_to_string (JStr msg) = Some msg"
  using assms
  by (simp add: on_message_object settle_entry_def reply_outcome_def js_truthy_def new_Error_def
      split: option.splits)

theorem response_outcome_witness:
  "settled (on_message (Some (JObj [(''request_id'', JStr ''abc''), (''error'', JStr ''not found'')]))
             one_pending)
     = [(0, Rejected (Error ''not found''))]
   \<and> pending_requests (on_message (Some (JObj [(''request_id'', JStr ''abc''), (''error'', JStr ''not found'')]))
             one_pending) = []
   \<and> settled (on_message (Some (JObj [(''request_id'', JStr ''abc''), (''data'', JNum ''7'')]))
             one_pending)
     = [(0, Resolved (Some (JNum ''7'')))]
   \<and> on_message (Some (JObj [(''request_id'', JStr ''abc''),
                              (''error'', JObj [(''toString'', JStr ''x'')])])) one_pending
     = one_pending
   \<and> settled (on_message (Some (JObj [(''request_id'', JStr ''abc''),
                              (''error'', JArr [JNum ''1'', JNull, JObj []])])) one_pending)
     = [(0, Rejected (Error ''1,,[object Object]''))]"
proof -
  have e: "map_of (pending_requests one_pending) ''abc'' = Some 0" "''abc'' \<noteq> []"
    "settled one_pending = []" "pending_requests one_pending = [(''abc'', 0)]"
    by (simp_all add: one_pending_eq)
  show ?thesis
    using response_outcome [of "[(''request_id'', JStr ''abc''), (''error'', JStr ''not found'')]"
        "''abc''" one_pending 0, OF _ e(2,1)]
      response_outcome [of "[(''request_id'', JStr ''abc''), (''data'', JNum ''7'')]"
        "''abc''" one_pending 0, OF _ e(2,1)]
      response_outcome [of "[(''request_id'', JStr ''abc''),
                              (''error'', JObj [(''toString'', JStr ''x'')])]"
        "''abc''" one_pending 0, OF _ e(2,1)]
      response_outcome [of "[(''request_id'', JStr ''abc''),
                              (''error'', JArr [JNum ''1'', JNull, JObj []])]"
        "''abc''" one_pending 0, OF _ e(2,1)]
    by (simp add: e get_prop_def)
qed

subsection \<open>C5: what the facade returns\<close>

text \<open>
  C5 says that a successful operation always returns a string. The three operations return
  \<^verbatim>\<open>JSON.stringify(response)\<close>, which is \<^verbatim>\<open>undefined\<close> when the response has no
  \<^verbatim>\<open>data\<close> field: \<^verbatim>\<open>getProjects\<close> answered by \<^verbatim>\<open>{ request_id: 'abc' }\<close> succeeds and
  returns \<^verbatim>\<open>undefined\<close>.
\<close>

theorem undefined_result_counterexample:
  "call get_projects ''abc'' open_tool = (Awaiting 0, one_pending)
   \<and> call_outcome (Awaiting 0)
        (on_message (Some (JObj [(''request_id'', JStr ''abc'')])) one_pending)
       = Returned None"
  by (simp add: one_pending_eq open_tool_eq get_projects_def call_def getProjects_def
      sendWebSocketRequest_def ws_send_def object_literal_def obj_spread_def
      on_message_def get_prop_def js_truthy_def map_has_def map_get_def map_delete_def key_of_def
      resolve_def call_outcome_def outcome_of_def after_await_def json_stringify_def)

text \<open>
  C5, amended: when one of the three operations has made its request on an open socket of a
  reachable state, and, whatever happened in between, the request is still pending when a
  response arrives that carries its non-empty request id, no truthy \<^verbatim>\<open>error\<close> and a
  \<^verbatim>\<open>data\<close> field, the operation returns a string, what \<^verbatim>\<open>JSON.stringify\<close> gives for
  \<^verbatim>\<open>data\<close>: its JSON text, with every object member once, in the order of enumeration,
  and with \<^verbatim>\<open>null\<close> in the place of a number that is not finite. For \<^verbatim>\<open>data\<close> =
  \<^verbatim>\<open>["proj1","proj2"]\<close> that string is \<^verbatim>\<open>["proj1","proj2"]\<close>, and for the array that
  \<^verbatim>\<open>[1e400,-1e400]\<close> parses to it is \<^verbatim>\<open>[null,null]\<close>: the instance after the theorem
  computes both.
\<close>

theorem facade_returns_serialized_data:
  assumes "s0 = run evs (constructor override ok)" and "connected s0"
    and "call inp request_id s0 = (r, s1)" and "valid_input inp" and "request_id \<noteq> []"
    and "s = run later s1" and "map_of (pending_requests s) request_id = Some (promises s0)"
    and "get_prop (JObj response) ''request_id'' = Some (JStr request_id)"
    and "\<not> js_truthy (get_prop (JObj response) ''error'')"
    and "get_prop (JObj response) ''data'' = Some d"
  shows "r = Awaiting (promises s0)
     \<and> map_of (pending_requests s1) request_id = Some (promises s0)
     \<and> call_outcome r (on_message (Some (JObj response)) s) = Returned (Some (stringify d))"
proof -
  obtain k where k: "ws s0 = Some k"
    using assms(2) by (auto simp: connected_def split: option.splits)
  obtain t pl where c: "call inp request_id s0 =
      (Awaiting (fst (sendWebSocketRequest request_id t pl s0)),
       snd (sendWebSocketRequest request_id t pl s0))"
    using call_valid[OF assms(4)] by blast
  have r: "r = Awaiting (promises s0)"
    using c assms(3) by (simp add: send_connected[OF assms(2) k])
  have e: "map_of (pending_requests s1) request_id = Some (promises s0)"
    using c assms(3) by (auto simp: send_connected[OF assms(2) k] map_of_update_same)
  have "inv s0" using assms(1) by (simp add: inv_reachable)
  then have "inv (snd (call inp request_id s0))" by (rule inv_call)
  then have "inv s" using assms(3,6) by (simp add: inv_run)
  then show ?thesis
    using r e await_returns_serialized_data[OF _ assms(7,5,8,9,10)] by simp
qed

theorem facade_returns_serialized_data_witness:
  \<open>connected open_tool \<and> valid_input get_projects
   \<and> call get_projects ''abc'' open_tool = (Awaiting 0, one_pending)
   \<and> map_of (pending_requests (run [SockMessage 0 None, Call get_tree ''def''] one_pending)) ''abc''
       = Some 0
   \<and> call_outcome (Awaiting 0)
        (on_message
           (Some (JObj [(''request_id'', JStr ''abc''),
                        (''data'', JArr [JStr ''proj1'', JStr ''proj2''])]))
           (run [SockMessage 0 None, Call get_tree ''def''] one_pending))
       = Returned (Some ''["proj1","proj2"]'')
   \<and> call_outcome (Awaiting 0)
        (on_message
           (Some (JObj [(''request_id'', JStr ''abc''),
                        (''data'', JArr [JNum ''Infinity'', JNum ''-Infinity''])]))
           (run [SockMessage 0 None, Call get_tree ''def''] one_pending))
       = Returned (Some ''[null,null]'')\<close>
proof -
  have c: "call get_projects ''abc'' open_tool = (Awaiting 0, one_pending)"
    by (simp add: one_pending_eq open_tool_eq get_projects_def call_def getProjects_def
      sendWebSocketRequest_def ws_send_def object_literal_def obj_spread_def)
  have v: "valid_input get_projects" by (simp add: valid_input_def get_projects_def)
  have p0: "promises open_tool = 0" by (simp add: open_tool_eq)
  have m: "map_of (pending_requests (run [SockMessage 0 None, Call get_tree ''def''] one_pending))
      ''abc'' = Some (promises open_tool)"
    by (simp add: p0 one_pending_eq step_def sock_is_def on_message_def get_tree_def call_def
        js_not_def str_def getProjectTree_def sendWebSocketRequest_def ws_send_def
        object_literal_def obj_spread_def obj_set_def)
  have h: "''abc'' \<noteq> []"
    "\<And>d. get_prop (JObj [(''request_id'', JStr ''abc''), (''data'', d)]) ''request_id''
       = Some (JStr ''abc'')"
    "\<And>d. \<not> js_truthy (get_prop (JObj [(''request_id'', JStr ''abc''), (''data'', d)]) ''error'')"
    "\<And>d. get_prop (JObj [(''request_id'', JStr ''abc''), (''data'', d)]) ''data'' = Some d"
    by (simp_all add: js_truthy_def get_prop_def)
  have s: \<open>stringify (JArr [JStr ''proj1'', JStr ''proj2'']) = ''["proj1","proj2"]''\<close>
    \<open>stringify (JArr [JNum ''Infinity'', JNum ''-Infinity'']) = ''[null,null]''\<close>
    by (simp_all add: stringify_def finite_number_def quote_json_def escape_char_def dquote_def
        backslash_def)
  have m0: "map_of (pending_requests (run [SockMessage 0 None, Call get_tree ''def''] one_pending))
      ''abc'' = Some 0"
    using m by (simp only: p0)
  have a: \<open>call_outcome (Awaiting 0)
        (on_message
           (Some (JObj [(''request_id'', JStr ''abc''),
                        (''data'', JArr [JStr ''proj1'', JStr ''proj2''])]))
           (run [SockMessage 0 None, Call get_tree ''def''] one_pending))
       = Returned (Some ''["proj1","proj2"]'')\<close>
    using facade_returns_serialized_data [OF open_tool_def connected_open_tool(1) c v h(1) refl m
        h(2,3,4) [of "JArr [JStr ''proj1'', JStr ''proj2'']"], unfolded p0 s]
    by (rule conjunct2 [OF conjunct2])
  have b: \<open>call_outcome (Awaiting 0)
        (on_message
           (Some (JObj [(''request_id'', JStr ''abc''),
                        (''data'', JArr [JNum ''Infinity'', JNum ''-Infinity''])]))
           (run [SockMessage 0 None, Call get_tree ''def''] one_pending))
       = Returned (Some ''[null,null]'')\<close>
    using facade_returns_serialized_data [OF open_tool_def connected_open_tool(1) c v h(1) refl m
        h(2,3,4) [of "JArr [JNum ''Infinity'', JNum ''-Infinity'']"], unfolded p0 s]
    by (rule conjunct2 [OF conjunct2])
  show ?thesis
    using connected_open_tool(1) v c m0 a b by (intro conjI)
qed

subsection \<open>C6: each request gets the response that carries its id\<close>

text \<open>
  C6 says that each outstanding request receives the response whose \<^verbatim>\<open>request_id\<close> equals
  its own id. The listener skips a response whose \<^verbatim>\<open>request_id\<close> is falsy, and the empty
  string is an id that \<^verbatim>\<open>sendWebSocketRequest\<close> can draw (\<^verbatim>\<open>Math.random()\<close> may return 0,
  which prints as \<^verbatim>\<open>0\<close>, and \<^verbatim>\<open>substring(2, 15)\<close> of that is empty): the request is
  stored under the empty id, and the response that carries this id changes nothing.
\<close>

theorem empty_id_counterexample:
  "map_of (pending_requests (snd (call get_projects [] open_tool))) [] = Some 0
   \<and> on_message (Some (JObj [(''request_id'', JStr []), (''data'', JArr [])]))
         (snd (call get_projects [] open_tool))
       = snd (call get_projects [] open_tool)
   \<and> calls_on 0 (on_message (Some (JObj [(''request_id'', JStr []), (''data'', JArr [])]))
         (snd (call get_projects [] open_tool))) = []"
  by (simp add: open_tool_eq get_projects_def call_def getProjects_def
      sendWebSocketRequest_def ws_send_def object_literal_def obj_spread_def
      on_message_def get_prop_def js_truthy_def calls_on_def)

text \<open>
  C6, amended: in every state the tool can reach, for every entry of the table whose request
  id is not empty (the ids of the table are pairwise distinct), and for every sequence of
  parsed responses in any order of arrival, the promise of the entry is settled by the first
  response that carries the entry's id and that the listener can process, with the outcome
  of that response, and by no other response: its functions are called once, for that
  response. A response that carries the id with a truthy \<^verbatim>\<open>error\<close> that cannot be
  converted to a string is passed over, as is every response with another id. When the
  sequence has no response that settles the entry, the promise is not called and the entry
  stays in the table.
\<close>

theorem correlation:
  assumes "s = run evs (constructor override ok)"
    and "map_of (pending_requests s) x = Some p" and "x \<noteq> []"
  shows "outcome_of p (on_messages rs s) =
           (case find (settles x) rs of None \<Rightarrow> None | Some r \<Rightarrow> reply_outcome (JObj r))
     \<and> calls_on p (on_messages rs s) =
           (case outcome_of p (on_messages rs s) of None \<Rightarrow> [] | Some oc \<Rightarrow> [oc])
     \<and> (find (settles x) rs = None \<longrightarrow> map_of (pending_requests (on_messages rs s)) x = Some p)"
proof -
  have "inv s" using assms(1) by (simp add: inv_reachable)
  then have f: "calls_on p (on_messages rs s) =
           (case find (settles x) rs of
              None \<Rightarrow> []
            | Some r \<Rightarrow> (case reply_outcome (JObj r) of None \<Rightarrow> [] | Some oc \<Rightarrow> [oc]))
     \<and> (find (settles x) rs = None \<longrightarrow> map_of (pending_requests (on_messages rs s)) x = Some p)"
    using assms(2,3) by (rule first_answer_settles)
  show ?thesis
  proof (cases "find (settles x) rs")
    case None
    then show ?thesis using f by (simp add: outcome_of_calls)
  next
    case (Some r)
    then have "settles x r" by (auto simp: find_Some_iff)
    then obtain oc where "reply_outcome (JObj r) = Some oc" by (auto simp: settles_def)
    then show ?thesis using f Some by (simp add: outcome_of_calls)
  qed
qed

theorem correlation_witness:
  "map_of (pending_requests two_pending) ''abc'' = Some 0
   \<and> map_of (pending_requests two_pending) ''def'' = Some 1
   \<and> calls_on 0 (on_messages
         [[(''request_id'', JStr ''def''), (''error'', JObj [(''toString'', JStr ''x'')])],
          [(''request_id'', JStr ''def''), (''data'', JNum ''2'')],
          [(''request_id'', JStr ''abc''), (''data'', JNum ''1'')]] two_pending)
       = [Resolved (Some (JNum ''1''))]
   \<and> calls_on 1 (on_messages
         [[(''request_id'', JStr ''def''), (''error'', JObj [(''toString'', JStr ''x'')])],
          [(''request_id'', JStr ''def''), (''data'', JNum ''2'')],
          [(''request_id'', JStr ''abc''), (''data'', JNum ''1'')]] two_pending)
       = [Resolved (Some (JNum ''2''))]
   \<and> outcome_of 0 (on_messages
         [[(''request_id'', JStr ''def''), (''error'', JObj [(''toString'', JStr ''x'')])],
          [(''request_id'', JStr ''def''), (''data'', JNum ''2'')],
          [(''request_id'', JStr ''abc''), (''data'', JNum ''1'')]] two_pending)
       = Some (Resolved (Some (JNum ''1'')))"
proof -
  have m0: "map_of (pending_requests two_pending) ''abc'' = Some 0"
    and m1: "map_of (pending_requests two_pending) ''def'' = Some 1"
    by (simp_all add: two_pending_eq)
  have n0: "''abc'' \<noteq> []" and n1: "''def'' \<noteq> []" by simp_all
  show ?thesis
    using correlation [OF two_pending_def m0 n0, of
        "[[(''request_id'', JStr ''def''), (''error'', JObj [(''toString'', JStr ''x'')])],
          [(''request_id'', JStr ''def''), (''data'', JNum ''2'')],
          [(''request_id'', JStr ''abc''), (''data'', JNum ''1'')]]"]
      correlation [OF two_pending_def m1 n1, of
        "[[(''request_id'', JStr ''def''), (''error'', JObj [(''toString'', JStr ''x'')])],
          [(''request_id'', JStr ''def''), (''data'', JNum ''2'')],
          [(''request_id'', JStr ''abc''), (''data'', JNum ''1'')]]"]
      m0 m1
    by (simp add: settles_def answers_def reply_outcome_def get_prop_def js_truthy_def
        new_Error_def)
qed

subsection \<open>C7: a request on a socket that is not open\<close>



subsection \<open>C8: the order of validation\<close>

text \<open>
  C8: when \<^verbatim>\<open>_call\<close> selects the file operation, a missing or empty project name fails
  with \<^verbatim>\<open>Project name is required\<close>, whatever the file path is; a non-empty project name
  with a missing or empty file path fails with \<^verbatim>\<open>File path is required\<close>. In both cases
  the call ends before any request is made: the state is the one it started in, so no frame
  has been sent, no promise created and no entry stored.
\<close>

theorem validation_order:
  "func inp = ''getProjectFile'' \<Longrightarrow>
     (js_not (project_name inp) \<longrightarrow>
        call inp request_id s = (Threw (Error ''Project name is required''), s))
     \<and> (\<not> js_not (project_name inp) \<and> js_not (file_path inp) \<longrightarrow>
        call inp request_id s = (Threw (Error ''File path is required''), s))"
  by (simp add: call_def)

theorem validation_order_witness:
  "call \<lparr>func = ''getProjectFile'', project_name = None, file_path = None\<rparr> ''r1'' open_tool
     = (Threw (Error ''Project name is required''), open_tool)
   \<and> call \<lparr>func = ''getProjectFile'', project_name = Some ''proj1'', file_path = Some []\<rparr> ''r1''
       open_tool
     = (Threw (Error ''File path is required''), open_tool)"
  using validation_order [of "\<lparr>func = ''getProjectFile'', project_name = None, file_path = None\<rparr>"
      "''r1''" open_tool]
    validation_order [of "\<lparr>func = ''getProjectFile'', project_name = Some ''proj1'', file_path = Some []\<rparr>"
      "''r1''" open_tool]
  by (simp add: js_not_def)

subsection \<open>C9: pending requests at teardown\<close>




subsection \<open>C10: the request id of the frame is the key of the table\<close>

text \<open>
  C10: when one of the three operations makes a request on an open socket, the promise it
  waits for is stored in the table under the request id drawn for it, and the frame written
  is the serialization of an envelope whose \<^verbatim>\<open>request_id\<close> is that same id, whose sender
  field is \<^verbatim>\<open>plugin\<close> and whose \<^verbatim>\<open>type\<close> is the operation's: the payload has no other
  property than \<^verbatim>\<open>project_name\<close> and \<^verbatim>\<open>file_path\<close>, so the spread changes no fixed field.
\<close>

theorem facade_request_id_is_table_key:
  assumes "connected s" and "ws s = Some k" and "call inp request_id s = (Awaiting p, s')"
  shows "map_of (pending_requests s') request_id = Some p
     \<and> (\<exists>t payload. 
           sent s' = sent s @ [(k, stringify (JObj (envelope request_id t payload)))]
         \<and> fst ` set payload \<subseteq> {''project_name'', ''file_path''}
         \<and> t \<in> {''get_projects'', ''get_project_tree'', ''get_file''}
         \<and> get_prop (JObj (envelope request_id t payload)) ''request_id'' = Some (JStr request_id)
         \<and> get_prop (JObj (envelope request_id t payload)) ''sender_type'' = Some (JStr ''plugin'')
         \<and> get_prop (JObj (envelope request_id t payload)) ''type'' = Some (JStr t))"
proof -
  from assms(3) have "valid_input inp" by (rule call_awaiting_valid)
  then obtain t payload where
    c: "call inp request_id s = (Awaiting (fst (sendWebSocketRequest request_id t payload s)),
                      snd (sendWebSocketRequest request_id t payload s))"
    and t: "t \<in> {''get_projects'', ''get_project_tree'', ''get_file''}"
    and keys: "fst ` set payload \<subseteq> {''project_name'', ''file_path''}"
    using call_valid by blast
  from c assms(3) have p: "p = promises s"
    and s': "s' = snd (sendWebSocketRequest request_id t payload s)"
    by (simp_all add: send_connected[OF assms(1,2)])
  have absent: "map_of (rev payload) ''request_id'' = None"
    "map_of (rev payload) ''sender_type'' = None" "map_of (rev payload) ''type'' = None"
    using keys by (auto simp: map_of_eq_None_iff)
  have "map_of (pending_requests s') request_id = Some p"
    by (simp add: s' p send_connected[OF assms(1,2)] map_of_update_same)
  moreover have "sent s' = sent s @ [(k, stringify (JObj (envelope request_id t payload)))]"
    by (simp add: s' send_connected[OF assms(1,2)])
  ultimately show ?thesis
    using t keys absent by (intro conjI exI[of _ t] exI[of _ payload]) (simp_all add: envelope_lookup)
qed

theorem facade_request_id_is_table_key_witness:
  "connected open_tool \<and> ws open_tool = Some 0
   \<and> call get_file ''k3x9'' open_tool = (Awaiting 0, snd (call get_file ''k3x9'' open_tool))
   \<and> map_of (pending_requests (snd (call get_file ''k3x9'' open_tool))) ''k3x9'' = Some 0"
proof -
  have c: "call get_file ''k3x9'' open_tool = (Awaiting 0, snd (call get_file ''k3x9'' open_tool))"
    by (simp add: eval_defs open_tool_eq)
  show ?thesis
    using facade_request_id_is_table_key [OF connected_open_tool c] c
    by (simp add: connected_open_tool)
qed

end
